theory Spec2Isabelle
  imports Complex_Main "HOL-Library.Word"
begin

unbundle bit_operations_syntax

section \<open>Values\<close>

text \<open>
  The values a reactive variable or a cache entry holds are the primitives the
  engine works with. Numbers are the reals (rounding is not modelled), with
  \<open>NaN\<close> apart because it is the one primitive that is not strictly equal to itself.
\<close>

datatype jsprim = PUndefined | PNull | PBool bool | PNum real | PNaN | PStr string

definition strict_eq :: "jsprim \<Rightarrow> jsprim \<Rightarrow> bool" where
  "strict_eq a b = (a = b \<and> a \<noteq> PNaN)"

section \<open>CacheManager\<close>

text \<open>
  A JavaScript \<open>Map\<close> iterates in insertion order, and setting an existing key keeps
  its position: an association list updated in place, extended at the end.
\<close>

fun map_set :: "('k \<times> 'v) list \<Rightarrow> 'k \<Rightarrow> 'v \<Rightarrow> ('k \<times> 'v) list" where
  "map_set [] k v = [(k, v)]"
| "map_set ((k', v') # m) k v = (if k' = k then (k, v) # m else (k', v') # map_set m k v)"

fun map_delete :: "('k \<times> 'v) list \<Rightarrow> 'k \<Rightarrow> ('k \<times> 'v) list" where
  "map_delete [] k = []"
| "map_delete ((k', v') # m) k = (if k' = k then m else (k', v') # map_delete m k)"

record cache_entry =
  entry_value :: jsprim
  createdAt :: int
  expiresAt :: "int option"

record cache_manager =
  cache :: "(string \<times> cache_entry) list"
  maxSize :: nat
  accessCount :: "(string \<times> nat) list"

definition new_cache :: "nat \<Rightarrow> cache_manager" where
  "new_cache n = \<lparr>cache = [], maxSize = n, accessCount = []\<rparr>"

text \<open>\<open>entry.expiresAt && Date.now() > entry.expiresAt\<close>: an absent or zero expiry is falsy.\<close>

definition expired :: "cache_entry \<Rightarrow> int \<Rightarrow> bool" where
  "expired e now = (case expiresAt e of None \<Rightarrow> False | Some t \<Rightarrow> t \<noteq> 0 \<and> now > t)"

definition cache_delete :: "cache_manager \<Rightarrow> string \<Rightarrow> cache_manager" where
  "cache_delete c key =
     c\<lparr>cache := map_delete (cache c) key, accessCount := map_delete (accessCount c) key\<rparr>"

text \<open>\<open>get\<close> returns the value read and the cache as it leaves it; \<open>now\<close> is \<open>Date.now()\<close>.\<close>

definition cache_get :: "cache_manager \<Rightarrow> string \<Rightarrow> int \<Rightarrow> jsprim \<times> cache_manager" where
  "cache_get c key now =
     (case map_of (cache c) key of
        None \<Rightarrow> (PUndefined, c)
      | Some entry \<Rightarrow>
          if expired entry now then (PUndefined, cache_delete c key)
          else (entry_value entry,
                c\<lparr>accessCount := map_set (accessCount c) key
                     ((case map_of (accessCount c) key of None \<Rightarrow> 0 | Some n \<Rightarrow> n) + 1)\<rparr>))"

text \<open>
  \<open>_evictLRU\<close>: the loop keeps the smallest count seen (\<open>None\<close> is the initial
  \<open>Infinity\<close>) and the key that had it; a strictly smaller count replaces it.
\<close>

fun lru_scan :: "(string \<times> nat) list \<Rightarrow> nat option \<Rightarrow> string \<Rightarrow> string" where
  "lru_scan [] minAccess lruKey = lruKey"
| "lru_scan ((key, n) # rest) minAccess lruKey =
     (if (case minAccess of None \<Rightarrow> True | Some m \<Rightarrow> n < m)
      then lru_scan rest (Some n) key
      else lru_scan rest minAccess lruKey)"

definition evictLRU :: "cache_manager \<Rightarrow> cache_manager" where
  "evictLRU c =
     (let lruKey = lru_scan (accessCount c) None ''''
      in if lruKey \<noteq> '''' then cache_delete c lruKey else c)"

text \<open>\<open>ttlMs ? Date.now() + ttlMs : undefined\<close>: an absent or zero TTL gives no expiry.\<close>

definition cache_set :: "cache_manager \<Rightarrow> string \<Rightarrow> jsprim \<Rightarrow> int option \<Rightarrow> int \<Rightarrow> cache_manager" where
  "cache_set c key v ttlMs now =
     (let c1 = (if length (cache c) \<ge> maxSize c then evictLRU c else c);
          entry = \<lparr>entry_value = v, createdAt = now,
                   expiresAt = (case ttlMs of None \<Rightarrow> None
                                | Some t \<Rightarrow> if t \<noteq> 0 then Some (now + t) else None)\<rparr>
      in c1\<lparr>cache := map_set (cache c1) key entry,
            accessCount := map_set (accessCount c1) key 1\<rparr>)"

text \<open>\<open>has\<close> calls \<open>get\<close> when the key is stored, so it counts as an access.\<close>

definition cache_has :: "cache_manager \<Rightarrow> string \<Rightarrow> int \<Rightarrow> bool \<times> cache_manager" where
  "cache_has c key now =
     (if map_of (cache c) key \<noteq> None
      then (let (v, c') = cache_get c key now in (v \<noteq> PUndefined, c'))
      else (False, c))"


text \<open>
  \<open>getStats\<close>: the number of entries, the capacity, the hit rate
  \<open>(totalAccess - uniqueKeys) / totalAccess\<close> (0 when nothing was accessed) and the
  estimated memory: per entry two bytes a character of the key, the size of the value
  (two bytes a character of a string, 8 for a number, 1 for a boolean, 0 otherwise)
  and 24 bytes of overhead.
\<close>

record cache_stats =
  stats_size :: nat
  stats_maxSize :: nat
  hitRate :: real
  memoryUsage :: nat

definition calculateHitRate :: "cache_manager \<Rightarrow> real" where
  "calculateHitRate c =
     (let totalAccess = foldl (\<lambda>sum count. sum + count) 0 (map snd (accessCount c));
          uniqueKeys = length (accessCount c)
      in if totalAccess = 0 then 0
         else (real totalAccess - real uniqueKeys) / real totalAccess)"

fun estimateValueSize :: "jsprim \<Rightarrow> nat" where
  "estimateValueSize (PStr s) = length s * 2"
| "estimateValueSize (PNum n) = 8"
| "estimateValueSize PNaN = 8"
| "estimateValueSize (PBool b) = 1"
| "estimateValueSize PNull = 0"
| "estimateValueSize PUndefined = 0"

definition estimateMemoryUsage :: "cache_manager \<Rightarrow> nat" where
  "estimateMemoryUsage c =
     foldl (\<lambda>totalSize (key, entry).
              totalSize + length key * 2 + estimateValueSize (entry_value entry) + 24)
       0 (cache c)"

definition getStats :: "cache_manager \<Rightarrow> cache_stats" where
  "getStats c =
     \<lparr>stats_size = length (cache c), stats_maxSize = maxSize c,
      hitRate = calculateHitRate c, memoryUsage = estimateMemoryUsage c\<rparr>"

subsection \<open>Sequences of cache operations\<close>

text \<open>
  A client's calls, in order. The entries of the scenarios below carry no TTL, so one
  clock reading \<open>now\<close> serves every call. \<open>run_states\<close> lists the cache before the
  first call and after each call; \<open>run_ops\<close> is the cache after the last one.
\<close>

datatype cache_op = OpSet string jsprim | OpGet string

fun apply_op :: "int \<Rightarrow> cache_manager \<Rightarrow> cache_op \<Rightarrow> cache_manager" where
  "apply_op now c (OpSet key v) = cache_set c key v None now"
| "apply_op now c (OpGet key) = snd (cache_get c key now)"

fun run_states :: "int \<Rightarrow> cache_manager \<Rightarrow> cache_op list \<Rightarrow> cache_manager list" where
  "run_states now c [] = [c]"
| "run_states now c (op # ops) = c # run_states now (apply_op now c op) ops"

definition run_ops :: "int \<Rightarrow> cache_manager \<Rightarrow> cache_op list \<Rightarrow> cache_manager" where
  "run_ops now c ops = last (run_states now c ops)"

definition inserts :: "string \<Rightarrow> (nat \<times> string \<times> jsprim) list \<Rightarrow> cache_op list" where
  "inserts k1 rest = concat (map (\<lambda>(g, k, v). replicate g (OpGet k1) @ [OpSet k v]) rest)"





subsection \<open>Cache keys\<close>

text \<open>
  \<open>_hashString\<close>: \<open>hash = (hash << 5) - hash + char\<close>, cut to 32 bits by \<open>hash & hash\<close>
  after every character. The intermediate sum is exact in a double, so the loop is
  arithmetic modulo \<open>2^32\<close>; the result is read as a signed integer and printed in
  base 16, a minus sign first when negative. Strings are sequences of 8-bit code units.
\<close>

definition hash_step :: "32 word \<Rightarrow> char \<Rightarrow> 32 word" where
  "hash_step hash c = push_bit 5 hash - hash + of_nat (of_char c)"

definition hex_digit :: "nat \<Rightarrow> char" where
  "hex_digit d = ''0123456789abcdef'' ! d"

function digits16 :: "int \<Rightarrow> string" where
  "digits16 i =
     (if i < 16 then [hex_digit (nat i)] else digits16 (i div 16) @ [hex_digit (nat (i mod 16))])"
  by pat_completeness auto
termination
  by (relation "measure nat") auto

declare digits16.simps [simp del]

definition int_toString16 :: "int \<Rightarrow> string" where
  "int_toString16 i = (if i < 0 then CHR ''-'' # digits16 (- i) else digits16 i)"

definition hashString :: "string \<Rightarrow> string" where
  "hashString str = int_toString16 (sint (foldl hash_step 0 str))"

text \<open>
  \<open>_hashValue\<close> goes by \<open>typeof\<close>. A number is carried as the text its \<open>toString()\<close>
  gives. For any other value \<open>DOther\<close> carries what \<open>JSON.stringify\<close> returns: some
  text, or nothing (for \<open>undefined\<close>, a function or a symbol), in which case
  \<open>_hashString\<close> reads the length of \<open>undefined\<close> and throws.
\<close>

datatype depval = DString string | DNumber string | DBoolean bool | DOther "string option"

fun hashValue :: "depval \<Rightarrow> string option" where
  "hashValue (DString s) = Some (hashString s)"
| "hashValue (DNumber text) = Some text"
| "hashValue (DBoolean b) = Some (if b then ''1'' else ''0'')"
| "hashValue (DOther (Some json)) = Some (hashString json)"
| "hashValue (DOther None) = None"

text \<open>
  \<open>Array.prototype.sort\<close> is stable. The comparator is \<open>a.localeCompare(b)\<close> on the
  keys; the collation belongs to the host, so it is the parameter \<open>cmp\<close>.
\<close>

fun insert_entry :: "(string \<Rightarrow> string \<Rightarrow> int) \<Rightarrow> string \<times> 'v \<Rightarrow> (string \<times> 'v) list \<Rightarrow> (string \<times> 'v) list" where
  "insert_entry cmp x [] = [x]"
| "insert_entry cmp x (y # ys) =
     (if cmp (fst x) (fst y) \<le> 0 then x # y # ys else y # insert_entry cmp x ys)"

fun sort_entries :: "(string \<Rightarrow> string \<Rightarrow> int) \<Rightarrow> (string \<times> 'v) list \<Rightarrow> (string \<times> 'v) list" where
  "sort_entries cmp [] = []"
| "sort_entries cmp (x # xs) = insert_entry cmp x (sort_entries cmp xs)"

fun join :: "string \<Rightarrow> string list \<Rightarrow> string" where
  "join sep [] = []"
| "join sep [s] = s"
| "join sep (s # t # ss) = s @ sep @ join sep (t # ss)"

text \<open>One \<open>key:hash\<close> item per entry; the first value that cannot be hashed throws.\<close>

fun dep_items :: "(string \<times> depval) list \<Rightarrow> string list option" where
  "dep_items [] = Some []"
| "dep_items ((key, v) # rest) =
     (case hashValue v of
        None \<Rightarrow> None
      | Some h \<Rightarrow> (case dep_items rest of None \<Rightarrow> None | Some items \<Rightarrow> Some ((key @ '':'' @ h) # items)))"

text \<open>
  \<open>generateKey\<close>; \<open>dependencies\<close> is the list \<open>Object.entries\<close> returns, in the
  object's enumeration order. \<open>None\<close> is the \<open>TypeError\<close>.
\<close>

definition generateKey :: "(string \<Rightarrow> string \<Rightarrow> int) \<Rightarrow> string \<Rightarrow> (string \<times> depval) list \<Rightarrow> string option" where
  "generateKey cmp expression dependencies =
     (case dep_items (sort_entries cmp dependencies) of
        None \<Rightarrow> None
      | Some items \<Rightarrow> Some (hashString expression @ ''#'' @ hashString (join ''|'' items)))"

text \<open>
  What the sort needs of the collation on the keys it meets: any two keys are
  comparable, only equal keys compare both ways, and the order is transitive.
\<close>

definition collation_on :: "(string \<Rightarrow> string \<Rightarrow> int) \<Rightarrow> string list \<Rightarrow> bool" where
  "collation_on cmp ks =
     (list_all (\<lambda>a. list_all (\<lambda>b. (cmp a b \<le> 0 \<or> cmp b a \<le> 0)
                                    \<and> (cmp a b \<le> 0 \<and> cmp b a \<le> 0 \<longrightarrow> a = b)
                                    \<and> list_all (\<lambda>c. cmp a b \<le> 0 \<and> cmp b c \<le> 0 \<longrightarrow> cmp a c \<le> 0) ks) ks) ks)"

text \<open>The order the sorted entries are in.\<close>

definition key_le :: "(string \<Rightarrow> string \<Rightarrow> int) \<Rightarrow> string \<times> 'v \<Rightarrow> string \<times> 'v \<Rightarrow> bool" where
  "key_le cmp x y = (cmp (fst x) (fst y) \<le> 0)"

text \<open>A collation for closed examples: code units compared from the left.\<close>

fun code_unit_compare :: "string \<Rightarrow> string \<Rightarrow> int" where
  "code_unit_compare [] [] = 0"
| "code_unit_compare [] (b # bs) = -1"
| "code_unit_compare (a # as) [] = 1"
| "code_unit_compare (a # as) (b # bs) =
     (if (of_char a :: nat) < of_char b then -1
      else if (of_char b :: nat) < of_char a then 1
      else code_unit_compare as bs)"


section \<open>FlowParser\<close>

text \<open>
  The nodes \<open>_parseTokens\<close> builds: a number (from \<open>parseFloat\<close>), or an object tagged
  \<open>variable\<close>, \<open>function\<close>, \<open>operation\<close> or \<open>literal\<close>.
\<close>

datatype ast =
    Num real
  | VariableRef string
  | FunctionCall string "ast list"
  | Operation string ast ast
  | Literal string

text \<open>
  A \<open>FlowExpression\<close> is \<open>{type, value, dependencies, complexity}\<close>. Its \<open>value\<close> is
  typed \<open>any\<close>; the parser stores a node, or the object of an assignment, a condition
  (whose \<open>falseBranch\<close> may be \<open>null\<close>) or a loop. \<open>PNull\<close> stands for a \<open>null\<close> or
  \<open>undefined\<close> value, which only a caller of \<open>schedule\<close> can supply.
\<close>

datatype etype = TVariable | TOperation | TCondition | TLoop | TFunction

datatype flow_expression =
    FlowExpression (expr_type: etype) (expr_value: payload) (dependencies: "string list")
      (complexity: nat)
and payload =
    PAst ast
  | PAssignment string flow_expression
  | PCondition flow_expression flow_expression "flow_expression option"
  | PLoop string flow_expression flow_expression
  | PNull

subsection \<open>Character classes and the regular expressions of the parser\<close>

text \<open>
  Strings are sequences of 8-bit code units. \<open>\<bsol>s\<close> is the white space among them
  (tab, line feed, vertical tab, form feed, carriage return, space, no-break space),
  \<open>\<bsol>w\<close> is \<open>[A-Za-z0-9_]\<close>, and the dot is any unit but a line terminator.
\<close>

definition is_space :: "char \<Rightarrow> bool" where
  "is_space c = ((of_char c :: nat) \<in> {9, 10, 11, 12, 13, 32, 160})"

definition is_line_terminator :: "char \<Rightarrow> bool" where
  "is_line_terminator c = ((of_char c :: nat) \<in> {10, 13})"

definition is_digit :: "char \<Rightarrow> bool" where
  "is_digit c = (48 \<le> (of_char c :: nat) \<and> (of_char c :: nat) \<le> 57)"

definition is_letter :: "char \<Rightarrow> bool" where
  "is_letter c = ((65 \<le> (of_char c :: nat) \<and> (of_char c :: nat) \<le> 90)
                 \<or> (97 \<le> (of_char c :: nat) \<and> (of_char c :: nat) \<le> 122))"

definition is_word :: "char \<Rightarrow> bool" where
  "is_word c = (is_letter c \<or> is_digit c \<or> c = CHR ''_'')"

definition is_dot :: "char \<Rightarrow> bool" where
  "is_dot c = (\<not> is_line_terminator c)"

definition trim :: "string \<Rightarrow> string" where
  "trim s = rev (dropWhile is_space (rev (dropWhile is_space s)))"

fun str_includes :: "string \<Rightarrow> string \<Rightarrow> bool" where
  "str_includes [] sub = (sub = [])"
| "str_includes (c # s) sub = (take (length sub) (c # s) = sub \<or> str_includes s sub)"

text \<open>
  The patterns are sequences of literals and of repeated one-character classes, so a
  pattern is a list of such items. \<open>Many cls lo lazy captured\<close> is \<open>cls\<close> repeated at
  least \<open>lo\<close> times, lazily or greedily, inside a capture group or not. \<open>rx_match\<close>
  backtracks as the host does: for each item it tries the repetition counts in the
  order of preference, and keeps the first for which the rest of the pattern matches.
  It returns the captured groups.
\<close>

datatype rx = Lit string | Many "char \<Rightarrow> bool" nat bool bool

fun first_some :: "'a option list \<Rightarrow> 'a option" where
  "first_some [] = None"
| "first_some (None # xs) = first_some xs"
| "first_some (Some x # xs) = Some x"

fun rx_match :: "rx list \<Rightarrow> string \<Rightarrow> string list option" where
  "rx_match [] s = Some []"
| "rx_match (Lit l # rs) s =
     (if take (length l) s = l then rx_match rs (drop (length l) s) else None)"
| "rx_match (Many cls lo lazy captured # rs) s =
     (let hi = length (takeWhile cls s);
          counts = (if lazy then [lo..<Suc hi] else rev [lo..<Suc hi])
      in first_some (map (\<lambda>n. map_option (\<lambda>groups. if captured then take n s # groups else groups)
                                  (rx_match rs (drop n s))) counts))"

text \<open>\<open>String.prototype.match\<close> without the \<open>g\<close> flag: the leftmost start that matches.\<close>

definition rx_search :: "rx list \<Rightarrow> string \<Rightarrow> string list option" where
  "rx_search rs s = first_some (map (\<lambda>i. rx_match rs (drop i s)) [0..<Suc (length s)])"

text \<open>\<open>/^\<bsol>s*\<bsol>w+\<bsol>s*=\<bsol>s*.+/\<close>\<close>

definition isAssignment :: "string \<Rightarrow> bool" where
  "isAssignment expr =
     (rx_match [Many is_space 0 False False, Many is_word 1 False False,
                Many is_space 0 False False, Lit ''='', Many is_space 0 False False,
                Many is_dot 1 False False] expr \<noteq> None)"

definition isConditional :: "string \<Rightarrow> bool" where
  "isConditional expr = (str_includes expr ''if'' \<and> (str_includes expr ''{'' \<or> str_includes expr ''?''))"

definition isLoop :: "string \<Rightarrow> bool" where
  "isLoop expr = (str_includes expr ''for'' \<and> str_includes expr ''{'')"

text \<open>\<open>/if\<bsol>s+(.+?)\<bsol>s*{\<bsol>s*(.+?)\<bsol>s*}/\<close>\<close>

definition ifPattern :: "rx list" where
  "ifPattern = [Lit ''if'', Many is_space 1 False False, Many is_dot 1 True True,
                Many is_space 0 False False, Lit ''{'', Many is_space 0 False False,
                Many is_dot 1 True True, Many is_space 0 False False, Lit ''}'']"

text \<open>\<open>/(.+?)\<bsol>s*\<bsol>?\<bsol>s*(.+?)\<bsol>s*:\<bsol>s*(.+)/\<close>\<close>

definition ternaryPattern :: "rx list" where
  "ternaryPattern = [Many is_dot 1 True True, Many is_space 0 False False, Lit ''?'',
                     Many is_space 0 False False, Many is_dot 1 True True,
                     Many is_space 0 False False, Lit '':'', Many is_space 0 False False,
                     Many is_dot 1 False True]"

text \<open>\<open>/for\<bsol>s+(\<bsol>w+)\<bsol>s+in\<bsol>s+(.+?)\<bsol>s*{\<bsol>s*(.+?)\<bsol>s*}/\<close>\<close>

definition forPattern :: "rx list" where
  "forPattern = [Lit ''for'', Many is_space 1 False False, Many is_word 1 False True,
                 Many is_space 1 False False, Lit ''in'', Many is_space 1 False False,
                 Many is_dot 1 True True, Many is_space 0 False False, Lit ''{'',
                 Many is_space 0 False False, Many is_dot 1 True True,
                 Many is_space 0 False False, Lit ''}'']"

subsection \<open>Tokens\<close>

definition is_operator_char :: "char \<Rightarrow> bool" where
  "is_operator_char c = (c \<in> set ''+-*/^()=<>!'')"

text \<open>
  \<open>_tokenize\<close>: \<open>tokens\<close> and \<open>current\<close> are the loop's two variables. The closing
  filter for non-empty tokens removes nothing, since only non-empty ones are pushed.
\<close>

fun tokenize_loop :: "string \<Rightarrow> string list \<Rightarrow> string \<Rightarrow> string list" where
  "tokenize_loop [] tokens current = (if current \<noteq> [] then tokens @ [current] else tokens)"
| "tokenize_loop (c # rest) tokens current =
     (if is_space c then
        (if current \<noteq> [] then tokenize_loop rest (tokens @ [current]) []
         else tokenize_loop rest tokens current)
      else if is_operator_char c then
        (if current \<noteq> [] then tokenize_loop rest (tokens @ [current] @ [[c]]) []
         else tokenize_loop rest (tokens @ [[c]]) current)
      else tokenize_loop rest tokens (current @ [c]))"

definition tokenize :: "string \<Rightarrow> string list" where
  "tokenize expr = filter (\<lambda>t. length t > 0) (tokenize_loop expr [] [])"

text \<open>
  The operator table: precedence and associativity. (\<open>token in this._operators\<close> is
  also true of the names every object inherits, such as \<open>toString\<close>; their precedence is
  \<open>undefined\<close>, the comparison with the minimum is false, and they are skipped like any
  other token.)
\<close>

definition operators :: "string \<Rightarrow> (nat \<times> string) option" where
  "operators s =
     (if s = ''+'' then Some (1, ''left'')
      else if s = ''-'' then Some (1, ''left'')
      else if s = ''*'' then Some (2, ''left'')
      else if s = ''/'' then Some (2, ''left'')
      else if s = ''^'' then Some (3, ''right'')
      else if s = ''='' then Some (0, ''right'')
      else None)"

definition function_names :: "string list" where
  "function_names = [''sin'', ''cos'', ''tan'', ''sqrt'', ''abs'', ''floor'', ''ceil'', ''round'',
                ''min'', ''max'', ''clamp'', ''lerp'', ''atan2'', ''pow'', ''exp'', ''log'']"

text \<open>
  \<open>_findMainOperator\<close>: the loop runs \<open>i\<close> from the last index down to 0; here the
  counter is \<open>i + 1\<close>. \<open>minPrecedence\<close> starts at \<open>Infinity\<close> (\<open>None\<close>), \<open>operatorIndex\<close>
  at \<open>-1\<close>.
\<close>

fun findMainOperator_loop :: "string list \<Rightarrow> nat \<Rightarrow> nat option \<Rightarrow> int \<Rightarrow> int \<Rightarrow> int" where
  "findMainOperator_loop tokens 0 minPrecedence operatorIndex parenDepth = operatorIndex"
| "findMainOperator_loop tokens (Suc i) minPrecedence operatorIndex parenDepth =
     (let token = tokens ! i in
      if token = '')'' then
        findMainOperator_loop tokens i minPrecedence operatorIndex (parenDepth + 1)
      else if token = ''('' then
        findMainOperator_loop tokens i minPrecedence operatorIndex (parenDepth - 1)
      else if parenDepth = 0 \<and> operators token \<noteq> None then
        (let precedence = fst (the (operators token)) in
         if (case minPrecedence of None \<Rightarrow> True | Some m \<Rightarrow> precedence \<le> m)
         then findMainOperator_loop tokens i (Some precedence) (int i) parenDepth
         else findMainOperator_loop tokens i minPrecedence operatorIndex parenDepth)
      else findMainOperator_loop tokens i minPrecedence operatorIndex parenDepth)"

definition findMainOperator :: "string list \<Rightarrow> int" where
  "findMainOperator tokens = findMainOperator_loop tokens (length tokens) None (- 1) 0"

text \<open>\<open>/^\<bsol>d+\<bsol>.?\<bsol>d*$/\<close> and \<open>parseFloat\<close> on a token of that form.\<close>

definition is_number :: "string \<Rightarrow> bool" where
  "is_number token =
     (let whole = takeWhile is_digit token; rest = dropWhile is_digit token
      in whole \<noteq> [] \<and> (rest = [] \<or> (hd rest = CHR ''.'' \<and> list_all is_digit (tl rest))))"

definition digits_value :: "string \<Rightarrow> nat" where
  "digits_value ds = foldl (\<lambda>n c. 10 * n + (of_char c - 48)) 0 ds"

definition parseFloat :: "string \<Rightarrow> real" where
  "parseFloat token =
     (let whole = takeWhile is_digit token; fraction = takeWhile is_digit (drop (Suc (length whole)) token)
      in real (digits_value whole) + real (digits_value fraction) / 10 ^ length fraction)"


subsection \<open>From tokens to nodes\<close>

text \<open>
  \<open>_parseTokens\<close> and the loop of \<open>_parseArguments\<close>, which calls it on every
  argument. \<open>tokens.slice(2, -1)\<close> is \<open>butlast (drop 2 tokens)\<close>. The loop's variables are
  \<open>args\<close>, \<open>current\<close> and \<open>parenDepth\<close>.
\<close>

lemma findMainOperator_loop_bound:
  "operatorIndex < int n \<or> operatorIndex < 0 \<Longrightarrow>
   findMainOperator_loop tokens i minPrecedence operatorIndex parenDepth < int n
   \<or> findMainOperator_loop tokens i minPrecedence operatorIndex parenDepth < 0" if "i \<le> n"
  using that
  by (induction tokens i minPrecedence operatorIndex parenDepth
      rule: findMainOperator_loop.induct) (auto simp: Let_def)

lemma findMainOperator_bound: "findMainOperator tokens < int (length tokens) \<or> findMainOperator tokens < 0"
  unfolding findMainOperator_def by (rule findMainOperator_loop_bound) simp_all

lemma findMainOperator_in_range:
  "0 < findMainOperator tokens \<Longrightarrow> nat (findMainOperator tokens) < length tokens"
  using findMainOperator_bound[of tokens] by linarith

function parseTokens :: "string list \<Rightarrow> ast"
  and parseArguments_loop :: "string list \<Rightarrow> ast list \<Rightarrow> string list \<Rightarrow> int \<Rightarrow> ast list"
where
  "parseTokens tokens =
     (if length tokens = 1 then
        (let token = tokens ! 0 in
         if is_number token then Num (parseFloat token) else VariableRef token)
      else if length tokens \<ge> 3 \<and> tokens ! 1 = ''('' \<and> tokens ! 0 \<in> set function_names then
        FunctionCall (tokens ! 0) (parseArguments_loop (butlast (drop 2 tokens)) [] [] 0)
      else
        (let operatorIndex = findMainOperator tokens in
         if operatorIndex > 0 then
           Operation (tokens ! nat operatorIndex)
             (parseTokens (take (nat operatorIndex) tokens))
             (parseTokens (drop (nat operatorIndex + 1) tokens))
         else Literal (join '' '' tokens)))"
| "parseArguments_loop [] args current parenDepth =
     (if length current > 0 then args @ [parseTokens current] else args)"
| "parseArguments_loop (token # rest) args current parenDepth =
     (if token = '','' \<and> parenDepth = 0 then
        (if length current > 0
         then parseArguments_loop rest (args @ [parseTokens current]) [] parenDepth
         else parseArguments_loop rest args current parenDepth)
      else
        parseArguments_loop rest args (current @ [token])
          (if token = ''('' then parenDepth + 1
           else if token = '')'' then parenDepth - 1 else parenDepth))"
  by pat_completeness auto
termination
  by (relation "inv_image (less_than <*lex*> less_than)
        (\<lambda>x. case x of Inl tokens \<Rightarrow> (length tokens, 0)
                | Inr (rest, args, current, parenDepth) \<Rightarrow>
                    (length rest + length current, Suc (length rest)))")
     (auto simp: findMainOperator_in_range min_def dest: findMainOperator_in_range)

declare parseTokens.simps [simp del]

definition parseArguments :: "string list \<Rightarrow> ast list" where
  "parseArguments tokens = parseArguments_loop tokens [] [] 0"

text \<open>\<open>/^[a-zA-Z_][a-zA-Z0-9_]*$/\<close>\<close>

definition is_identifier :: "string \<Rightarrow> bool" where
  "is_identifier token =
     (token \<noteq> [] \<and> (is_letter (hd token) \<or> hd token = CHR ''_'') \<and> list_all is_word (tl token))"

fun extractDependencies_loop :: "string list \<Rightarrow> string list \<Rightarrow> string list" where
  "extractDependencies_loop [] variables = variables"
| "extractDependencies_loop (token # rest) variables =
     (if is_identifier token \<and> token \<notin> set function_names
      then (if token \<notin> set variables
            then extractDependencies_loop rest (variables @ [token])
            else extractDependencies_loop rest variables)
      else extractDependencies_loop rest variables)"

definition extractDependencies :: "string \<Rightarrow> string list" where
  "extractDependencies expr = extractDependencies_loop (tokenize expr) []"

text \<open>\<open>_calculateComplexity\<close>: a number is not an object and costs 1.\<close>

fun calculateComplexity :: "ast \<Rightarrow> nat" where
  "calculateComplexity (Num n) = 1"
| "calculateComplexity (FunctionCall name arguments) =
     1 + 5 + foldl (\<lambda>sum arg. sum + calculateComplexity arg) 0 arguments"
| "calculateComplexity (Operation operator left right) =
     1 + 2 + calculateComplexity left + calculateComplexity right"
| "calculateComplexity (VariableRef name) = 1"
| "calculateComplexity (Literal v) = 1"

subsection \<open>Expressions\<close>

definition parseMathExpression :: "string \<Rightarrow> flow_expression" where
  "parseMathExpression expr =
     (let tokens = tokenize expr; ast = parseTokens tokens
      in FlowExpression TOperation (PAst ast) (extractDependencies expr) (calculateComplexity ast))"

text \<open>
  \<open>expr.split("=")\<close>: the pieces between the equals signs. \<open>_parseAssignment\<close> takes the
  first two, trimmed; it is only called on a string with an equals sign in it.
\<close>

fun split_on :: "char \<Rightarrow> string \<Rightarrow> string \<Rightarrow> string list" where
  "split_on sep [] piece = [piece]"
| "split_on sep (c # s) piece =
     (if c = sep then piece # split_on sep s [] else split_on sep s (piece @ [c]))"

definition parseAssignment :: "string \<Rightarrow> flow_expression" where
  "parseAssignment expr =
     (let pieces = map trim (split_on CHR ''='' expr []);
          variable = pieces ! 0;
          valueExpr = parseMathExpression (pieces ! 1)
      in FlowExpression TVariable (PAssignment variable valueExpr)
           (dependencies valueExpr) (complexity valueExpr + 1))"

definition parseConditional :: "string \<Rightarrow> flow_expression" where
  "parseConditional expr =
     (case rx_search ifPattern expr of
        Some ifMatch \<Rightarrow>
          FlowExpression TCondition
            (PCondition (parseMathExpression (ifMatch ! 0)) (parseMathExpression (ifMatch ! 1)) None)
            (extractDependencies expr) 10
      | None \<Rightarrow>
          (case rx_search ternaryPattern expr of
             Some ternaryMatch \<Rightarrow>
               FlowExpression TCondition
                 (PCondition (parseMathExpression (ternaryMatch ! 0))
                    (parseMathExpression (ternaryMatch ! 1))
                    (Some (parseMathExpression (ternaryMatch ! 2))))
                 (extractDependencies expr) 8
           | None \<Rightarrow> parseMathExpression expr))"

definition parseLoop :: "string \<Rightarrow> flow_expression" where
  "parseLoop expr =
     (case rx_search forPattern expr of
        Some forMatch \<Rightarrow>
          FlowExpression TLoop
            (PLoop (forMatch ! 0) (parseMathExpression (forMatch ! 1))
               (parseMathExpression (forMatch ! 2)))
            (extractDependencies expr) 50
      | None \<Rightarrow> parseMathExpression expr)"

definition parse :: "string \<Rightarrow> flow_expression" where
  "parse expression =
     (let trimmed = trim expression in
      if isAssignment trimmed then parseAssignment trimmed
      else if isConditional trimmed then parseConditional trimmed
      else if isLoop trimmed then parseLoop trimmed
      else parseMathExpression trimmed)"


subsection \<open>Parentheses\<close>

text \<open>
  The nesting depth at position \<open>i\<close>: the opening parentheses before it that are not
  closed before it. A token sequence is balanced when no prefix closes more than it
  opened and the whole closes all it opened. \<open>closing_depth\<close> is the depth the scan
  from the right computes.
\<close>

definition nesting :: "string list \<Rightarrow> nat \<Rightarrow> int" where
  "nesting tokens i =
     int (count_list (take i tokens) ''('') - int (count_list (take i tokens) '')'')"

fun balanced_from :: "nat \<Rightarrow> string list \<Rightarrow> bool" where
  "balanced_from d [] = (d = 0)"
| "balanced_from d (t # ts) =
     (if t = ''('' then balanced_from (Suc d) ts
      else if t = '')'' then d > 0 \<and> balanced_from (d - 1) ts
      else balanced_from d ts)"

definition balanced :: "string list \<Rightarrow> bool" where
  "balanced tokens = balanced_from 0 tokens"

definition closing_depth :: "string list \<Rightarrow> nat \<Rightarrow> int" where
  "closing_depth tokens n =
     int (count_list (drop n tokens) '')'') - int (count_list (drop n tokens) ''('')"


section \<open>ExecutionEngine\<close>

subsection \<open>Evaluation\<close>

text \<open>
  What evaluation can return: a primitive, or one of the objects an expression
  carries. Numbers are real numbers (rounding, and so overflow, is not modelled);
  \<open>VNaN\<close> and \<open>VInfinity\<close> are the two non-numbers the operators below can produce from
  them. \<open>VUnmodelled\<close> marks the one result left out: the text of a string built from a
  number that is not an integer below \<open>10^21\<close>.
\<close>

datatype jsval =
    VUndefined | VNull | VNum real | VNaN | VInfinity | VStr string
  | VNode ast | VObject payload | VExpr flow_expression | VUnmodelled

datatype error = TypeError

text \<open>The value a node is as an operand, and the value a \<open>value\<close> field holds.\<close>

fun ast_val :: "ast \<Rightarrow> jsval" where
  "ast_val (Num n) = VNum n"
| "ast_val node = VNode node"

fun payload_val :: "payload \<Rightarrow> jsval" where
  "payload_val (PAst a) = ast_val a"
| "payload_val PNull = VNull"
| "payload_val p = VObject p"

text \<open>Decimal digits of a non-negative integer, and \<open>Number.prototype.toString\<close> on integers.\<close>

definition dec_digit :: "nat \<Rightarrow> char" where
  "dec_digit d = ''0123456789'' ! d"

function digits10 :: "int \<Rightarrow> string" where
  "digits10 i =
     (if i < 10 then [dec_digit (nat i)] else digits10 (i div 10) @ [dec_digit (nat (i mod 10))])"
  by pat_completeness auto
termination
  by (relation "measure nat") auto

declare digits10.simps [simp del]

definition number_toString :: "real \<Rightarrow> string option" where
  "number_toString x =
     (if x = of_int \<lfloor>x\<rfloor> \<and> \<bar>x\<bar> < 10 ^ 21
      then Some (if x < 0 then CHR ''-'' # digits10 (- \<lfloor>x\<rfloor>) else digits10 \<lfloor>x\<rfloor>)
      else None)"

text \<open>
  The operators of the language on two operands that are nodes. \<open>+\<close> adds two
  numbers; with an object on either side both operands become strings, the object
  as \<open>[object Object]\<close>, and are concatenated. The other operators convert an object to
  \<open>NaN\<close>.
\<close>

fun operand_toString :: "ast \<Rightarrow> string option" where
  "operand_toString (Num n) = number_toString n"
| "operand_toString node = Some ''[object Object]''"

fun js_add :: "ast \<Rightarrow> ast \<Rightarrow> jsval" where
  "js_add (Num a) (Num b) = VNum (a + b)"
| "js_add left right =
     (case (operand_toString left, operand_toString right) of
        (Some l, Some r) \<Rightarrow> VStr (l @ r)
      | _ \<Rightarrow> VUnmodelled)"

fun js_sub :: "ast \<Rightarrow> ast \<Rightarrow> jsval" where
  "js_sub (Num a) (Num b) = VNum (a - b)"
| "js_sub left right = VNaN"

fun js_mul :: "ast \<Rightarrow> ast \<Rightarrow> jsval" where
  "js_mul (Num a) (Num b) = VNum (a * b)"
| "js_mul left right = VNaN"

text \<open>Only used with a right operand other than the number 0.\<close>

fun js_div :: "ast \<Rightarrow> ast \<Rightarrow> jsval" where
  "js_div (Num a) (Num b) = VNum (a / b)"
| "js_div left right = VNaN"

text \<open>
  The functions of \<open>Math\<close> on real numbers. They are kept apart from the equations
  used for computing, since they have no finite computation.
\<close>

definition math_sin :: "real \<Rightarrow> real" where
  "math_sin x = sin x"

definition math_cos :: "real \<Rightarrow> real" where
  "math_cos x = cos x"

definition math_tan :: "real \<Rightarrow> real" where
  "math_tan x = tan x"

definition math_sqrt :: "real \<Rightarrow> real" where
  "math_sqrt x = sqrt x"

definition math_powr :: "real \<Rightarrow> real \<Rightarrow> real" where
  "math_powr a b = a powr b"

declare math_sin_def [code del] math_cos_def [code del] math_tan_def [code del]
  math_sqrt_def [code del] math_powr_def [code del]

text \<open>
  \<open>Math.pow\<close>: an exponent 0 gives 1 whatever the base; a negative base has a power
  only for an integer exponent; 0 to a negative power is \<open>Infinity\<close>.
\<close>

fun js_pow :: "ast \<Rightarrow> ast \<Rightarrow> jsval" where
  "js_pow left (Num b) =
     (if b = 0 then VNum 1
      else case left of
        Num a \<Rightarrow>
          (if a > 0 then VNum (math_powr a b)
           else if a = 0 then (if b > 0 then VNum 0 else VInfinity)
           else if b = of_int \<lfloor>b\<rfloor> then VNum (a powi \<lfloor>b\<rfloor>)
           else VNaN)
      | _ \<Rightarrow> VNaN)"
| "js_pow left right = VNaN"

fun js_math :: "(real \<Rightarrow> real) \<Rightarrow> ast \<Rightarrow> jsval" where
  "js_math f (Num a) = VNum (f a)"
| "js_math f node = VNaN"

fun js_sqrt :: "ast \<Rightarrow> jsval" where
  "js_sqrt (Num a) = (if a < 0 then VNaN else VNum (math_sqrt a))"
| "js_sqrt node = VNaN"

text \<open>
  \<open>_evaluateOperation\<close> destructures \<open>expression.value\<close> into \<open>operator\<close>, \<open>left\<close> and
  \<open>right\<close>, which throws on \<open>null\<close>, and applies the operator to \<open>left\<close> and \<open>right\<close> as
  they are. A value without an \<open>operator\<close> field falls to the default.
\<close>

fun evaluateOperation :: "flow_expression \<Rightarrow> error + jsval" where
  "evaluateOperation (FlowExpression t PNull deps c) = Inl TypeError"
| "evaluateOperation (FlowExpression t (PAst (Operation operator left right)) deps c) =
     Inr (if operator = ''+'' then js_add left right
          else if operator = ''-'' then js_sub left right
          else if operator = ''*'' then js_mul left right
          else if operator = ''/'' then (if right \<noteq> Num 0 then js_div left right else VNum 0)
          else if operator = ''^'' then js_pow left right
          else if operator = ''sin'' then js_math math_sin left
          else if operator = ''cos'' then js_math math_cos left
          else if operator = ''tan'' then js_math math_tan left
          else if operator = ''sqrt'' then js_sqrt left
          else VNum 0)"
| "evaluateOperation (FlowExpression t p deps c) = Inr (VNum 0)"

text \<open>
  \<open>_evaluateCondition\<close>: \<open>condition ? trueBranch : falseBranch\<close> on the fields of
  \<open>expression.value\<close>. A stored condition is an object, hence truthy; a value without
  these fields has them all \<open>undefined\<close>.
\<close>

fun evaluateCondition :: "flow_expression \<Rightarrow> error + jsval" where
  "evaluateCondition (FlowExpression t PNull deps c) = Inl TypeError"
| "evaluateCondition (FlowExpression t (PCondition condition trueBranch falseBranch) deps c) =
     Inr (VExpr trueBranch)"
| "evaluateCondition (FlowExpression t p deps c) = Inr VUndefined"

fun evaluateExpression :: "flow_expression \<Rightarrow> error + jsval" where
  "evaluateExpression expression =
     (case expr_type expression of
        TVariable \<Rightarrow> Inr (payload_val (expr_value expression))
      | TOperation \<Rightarrow> evaluateOperation expression
      | TCondition \<Rightarrow> evaluateCondition expression
      | _ \<Rightarrow> Inr (payload_val (expr_value expression)))"

definition evaluateExpressionChunk :: "flow_expression \<Rightarrow> nat \<Rightarrow> nat \<Rightarrow> error + jsval" where
  "evaluateExpressionChunk expression chunkIndex totalChunks = evaluateExpression expression"


subsection \<open>Tasks and the engine\<close>

text \<open>
  A chunk's \<open>computation\<close> is a thunk; the model keeps what calling it gives: a result
  or the error it throws.
\<close>

record computation_chunk =
  chunk_id :: string
  computation :: "error + jsval"
  chunk_dependencies :: "string list"
  estimatedMs :: nat

record computation_task =
  task_id :: string
  expression :: flow_expression
  priority :: real
  chunks :: "computation_chunk list option"

text \<open>
  What a run leaves behind. \<open>TaskCompleted\<close> is the line \<open>_notifyCompletion\<close> logs,
  \<open>TaskFailed\<close> and \<open>ChunkFailed\<close> are the two \<open>console.error\<close> lines. \<open>Popped\<close> and
  \<open>RanChunk\<close> record the task taken from the queue and the chunk whose thunk returned;
  the code prints nothing there.
\<close>

datatype event =
    Popped computation_task
  | RanChunk string
  | ChunkFailed string error
  | TaskCompleted string jsval
  | TaskFailed string error

text \<open>
  The engine: its configured frame time, queue and frame start, and, for the model, the
  number of times \<open>performance.now()\<close> was read and the events so far. The clock is a
  parameter of every operation that reads it: its \<open>n\<close>-th reading is \<open>clock n\<close>.
\<close>

record execution_engine =
  maxFrameTime :: real
  taskQueue :: "computation_task list"
  frameStartTime :: real
  clock_reads :: nat
  events :: "event list"

text \<open>\<open>config.maxFrameTime || 16\<close>: an absent or zero setting gives 16.\<close>

definition new_execution_engine :: "real option \<Rightarrow> execution_engine" where
  "new_execution_engine configured =
     \<lparr>maxFrameTime = (case configured of None \<Rightarrow> 16 | Some m \<Rightarrow> if m \<noteq> 0 then m else 16),
      taskQueue = [], frameStartTime = 0, clock_reads = 0, events = []\<rparr>"

definition getRemainingFrameTime :: "(nat \<Rightarrow> real) \<Rightarrow> execution_engine \<Rightarrow> real \<times> execution_engine" where
  "getRemainingFrameTime clock s =
     (max 0 (maxFrameTime s - (clock (clock_reads s) - frameStartTime s)),
      s\<lparr>clock_reads := Suc (clock_reads s)\<rparr>)"

definition chunkComputation :: "computation_task \<Rightarrow> computation_chunk list" where
  "chunkComputation task =
     (let chunkSize = max 1 (complexity (expression task) div 10)
      in map (\<lambda>i. \<lparr>chunk_id = task_id task @ ''_chunk_'' @ digits10 (int i),
                    computation = evaluateExpressionChunk (expression task) i chunkSize,
                    chunk_dependencies = dependencies (expression task),
                    estimatedMs = 2\<rparr>) [0..<chunkSize])"

text \<open>\<open>findIndex\<close>: the first index whose element satisfies the test; \<open>None\<close> is \<open>-1\<close>.\<close>

fun findIndex :: "('a \<Rightarrow> bool) \<Rightarrow> 'a list \<Rightarrow> nat option" where
  "findIndex P [] = None"
| "findIndex P (x # xs) = (if P x then Some 0 else map_option Suc (findIndex P xs))"

text \<open>\<open>schedule\<close>, in its two steps: chunk a complex task, insert by priority.\<close>

definition with_chunks :: "computation_task \<Rightarrow> computation_task" where
  "with_chunks task =
     (if complexity (expression task) > 100 then task\<lparr>chunks := Some (chunkComputation task)\<rparr>
      else task)"

definition schedule :: "execution_engine \<Rightarrow> computation_task \<Rightarrow> execution_engine" where
  "schedule s task0 =
     (let task = with_chunks task0;
          insertIndex = findIndex (\<lambda>t. priority t < priority task) (taskQueue s)
      in case insertIndex of
           None \<Rightarrow> s\<lparr>taskQueue := taskQueue s @ [task]\<rparr>
         | Some i \<Rightarrow> s\<lparr>taskQueue := take i (taskQueue s) @ task # drop i (taskQueue s)\<rparr>)"

definition notifyCompletion :: "execution_engine \<Rightarrow> string \<Rightarrow> jsval \<Rightarrow> execution_engine" where
  "notifyCompletion s taskId result = s\<lparr>events := events s @ [TaskCompleted taskId result]\<rparr>"

definition executeSimpleTask :: "execution_engine \<Rightarrow> computation_task \<Rightarrow> execution_engine" where
  "executeSimpleTask s task =
     (case evaluateExpression (expression task) of
        Inr result \<Rightarrow> notifyCompletion s (task_id task) result
      | Inl err \<Rightarrow> s\<lparr>events := events s @ [TaskFailed (task_id task) err]\<rparr>)"

text \<open>
  The loop of \<open>_executeChunkedTask\<close>: it reads the clock only while chunks are left,
  stops at the first chunk that throws, and returns the index it reached.
\<close>

function chunk_loop :: "(nat \<Rightarrow> real) \<Rightarrow> execution_engine \<Rightarrow> computation_chunk list \<Rightarrow> nat \<Rightarrow> nat \<times> execution_engine" where
  "chunk_loop clock s cs chunkIndex =
     (if chunkIndex < length cs then
        (let (remaining, s1) = getRemainingFrameTime clock s in
         if remaining > 1 then
           (let chunk = cs ! chunkIndex in
            case computation chunk of
              Inr result \<Rightarrow>
                chunk_loop clock (s1\<lparr>events := events s1 @ [RanChunk (chunk_id chunk)]\<rparr>) cs
                  (chunkIndex + 1)
            | Inl err \<Rightarrow>
                (chunkIndex, s1\<lparr>events := events s1 @ [ChunkFailed (chunk_id chunk) err]\<rparr>))
         else (chunkIndex, s1))
      else (chunkIndex, s))"
  by pat_completeness auto
termination
  by (relation "measure (\<lambda>(clock, s, cs, chunkIndex). length cs - chunkIndex)") auto

declare chunk_loop.simps [simp del]

text \<open>
  \<open>_executeChunkedTask\<close>: one reading of the clock that is not used, the loop, and
  the rest of the chunks handed to \<open>schedule\<close> when some are left.
\<close>

definition executeChunkedTask :: "(nat \<Rightarrow> real) \<Rightarrow> execution_engine \<Rightarrow> computation_task \<Rightarrow> execution_engine" where
  "executeChunkedTask clock s task =
     (case chunks task of
        None \<Rightarrow> s
      | Some cs \<Rightarrow>
          (let (remainingTime, s1) = getRemainingFrameTime clock s;
               (chunkIndex, s2) = chunk_loop clock s1 cs 0
           in if chunkIndex < length cs
              then schedule s2 (task\<lparr>chunks := Some (drop chunkIndex cs)\<rparr>)
              else s2))"

text \<open>
  The loop of \<open>executeFrame\<close>. Nothing bounds the number of its rounds (a task whose
  chunk throws is rescheduled at once), so the model counts them: \<open>None\<close> means the
  rounds allowed were used up with work still to do.
\<close>

fun executeFrame_loop :: "(nat \<Rightarrow> real) \<Rightarrow> nat \<Rightarrow> execution_engine \<Rightarrow> execution_engine option" where
  "executeFrame_loop clock rounds s =
     (if length (taskQueue s) > 0 then
        (let (remaining, s1) = getRemainingFrameTime clock s in
         if remaining > 2 then
           (case rounds of
              0 \<Rightarrow> None
            | Suc n \<Rightarrow>
                (let task = hd (taskQueue s1);
                     s2 = s1\<lparr>taskQueue := tl (taskQueue s1), events := events s1 @ [Popped task]\<rparr>
                 in executeFrame_loop clock n
                      (if chunks task \<noteq> None then executeChunkedTask clock s2 task
                       else executeSimpleTask s2 task)))
         else Some s1)
      else Some s)"

declare executeFrame_loop.simps [simp del]

definition executeFrame :: "(nat \<Rightarrow> real) \<Rightarrow> nat \<Rightarrow> execution_engine \<Rightarrow> real \<Rightarrow> execution_engine option" where
  "executeFrame clock rounds s frameStart =
     executeFrame_loop clock rounds (s\<lparr>frameStartTime := frameStart\<rparr>)"

text \<open>The tasks taken from the queue, in the order they were taken.\<close>

fun popped :: "event list \<Rightarrow> computation_task list" where
  "popped [] = []"
| "popped (Popped task # es) = task # popped es"
| "popped (e # es) = popped es"


subsection \<open>Runs of the scheduler\<close>



definition scheduled :: "computation_task \<Rightarrow> bool" where
  "scheduled task = (with_chunks task = task)"

definition same_frame :: "execution_engine \<Rightarrow> execution_engine \<Rightarrow> bool" where
  "same_frame s s' =
     (taskQueue s' = taskQueue s \<and> maxFrameTime s' = maxFrameTime s
      \<and> frameStartTime s' = frameStartTime s \<and> popped (events s') = popped (events s))"





definition long_sum :: string where
  "long_sum = ''1+1+1+1+1+1+1+1+1+1+1+1+1+1+1+1+1+1+1+1+1+1+1+1+1+1''"

definition complex_task :: computation_task where
  "complex_task = \<lparr>task_id = ''t'', expression = parse long_sum, priority = 1, chunks = None\<rparr>"

definition short_frame :: "nat \<Rightarrow> real" where
  "short_frame n = (if n < 4 then 0 else 15.5)"


section \<open>FlowVariable\<close>

text \<open>
  Variables refer to each other, so they live in a store: a list of variables, a
  reference being a position in it. \<open>dependents\<close> and \<open>listeners\<close> are JavaScript sets,
  which iterate in insertion order: lists without repetition. A listener is known by a
  number; what the callback does is outside the model, which records the call.
\<close>

record flow_variable =
  var_name :: string
  var_value :: jsprim
  var_dependencies :: "string list"
  dependents :: "nat list"
  lastComputed :: real
  dirty :: bool
  listeners :: "nat list"

type_synonym store = "flow_variable list"

datatype notice = Notified nat jsprim | MarkedDirty nat

definition set_add :: "'a list \<Rightarrow> 'a \<Rightarrow> 'a list" where
  "set_add xs x = (if x \<in> set xs then xs else xs @ [x])"

definition set_delete :: "'a list \<Rightarrow> 'a \<Rightarrow> 'a list" where
  "set_delete xs x = filter (\<lambda>y. y \<noteq> x) xs"

definition subscribe :: "store \<Rightarrow> nat \<Rightarrow> nat \<Rightarrow> store" where
  "subscribe h r callback = h[r := (h ! r)\<lparr>listeners := set_add (listeners (h ! r)) callback\<rparr>]"

definition unsubscribe :: "store \<Rightarrow> nat \<Rightarrow> nat \<Rightarrow> store" where
  "unsubscribe h r callback = h[r := (h ! r)\<lparr>listeners := set_delete (listeners (h ! r)) callback\<rparr>]"

definition addDependency :: "store \<Rightarrow> nat \<Rightarrow> nat \<Rightarrow> store" where
  "addDependency h r variable =
     (let h1 = h[r := (h ! r)\<lparr>var_dependencies :=
                     set_add (var_dependencies (h ! r)) (var_name (h ! variable))\<rparr>]
      in h1[variable := (h1 ! variable)\<lparr>dependents := set_add (dependents (h1 ! variable)) r\<rparr>])"

definition removeDependency :: "store \<Rightarrow> nat \<Rightarrow> nat \<Rightarrow> store" where
  "removeDependency h r variable =
     (let h1 = h[r := (h ! r)\<lparr>var_dependencies :=
                     set_delete (var_dependencies (h ! r)) (var_name (h ! variable))\<rparr>]
      in h1[variable := (h1 ! variable)\<lparr>dependents := set_delete (dependents (h1 ! variable)) r\<rparr>])"

text \<open>
  \<open>markDirty\<close> and \<open>_notifyDependents\<close> call each other: \<open>markDirty\<close> on a clean
  variable sets its flag and calls \<open>markDirty\<close> on each dependent in turn, each call
  running to its end before the next begins. \<open>pending\<close> is the calls still to be made,
  in the order they will be made: the dependents of the variable just marked come
  before what was pending. \<open>marked\<close> collects the variables whose flag was set. A
  reference outside the store cannot occur in the program; the model passes over it.
\<close>

definition clean_count :: "store \<Rightarrow> nat" where
  "clean_count h = length (filter (\<lambda>v. \<not> dirty v) h)"

lemma filter_update_less:
  "i < length xs \<Longrightarrow> P (xs ! i) \<Longrightarrow> \<not> P y \<Longrightarrow>
   length (filter P (xs[i := y])) < length (filter P xs)"
proof (induction xs arbitrary: i)
  case Nil
  then show ?case by simp
next
  case (Cons x xs)
  then show ?case by (cases i) force+
qed

lemma clean_count_mark:
  assumes "r < length h" and "\<not> dirty (h ! r)"
  shows "clean_count (h[r := (h ! r)\<lparr>dirty := True\<rparr>]) < clean_count h"
  unfolding clean_count_def using assms by (intro filter_update_less) simp_all

function markDirty_pending :: "store \<Rightarrow> nat list \<Rightarrow> nat list \<Rightarrow> store \<times> nat list" where
  "markDirty_pending h [] marked = (h, marked)"
| "markDirty_pending h (r # pending) marked =
     (if r < length h \<and> \<not> dirty (h ! r)
      then markDirty_pending (h[r := (h ! r)\<lparr>dirty := True\<rparr>]) (dependents (h ! r) @ pending)
             (marked @ [r])
      else markDirty_pending h pending marked)"
  by pat_completeness auto
termination
  by (relation "inv_image (less_than <*lex*> less_than)
        (\<lambda>(h, pending, marked). (clean_count h, length pending))")
     (auto simp: clean_count_mark)

definition markDirty :: "store \<Rightarrow> nat \<Rightarrow> store \<times> nat list" where
  "markDirty h r = markDirty_pending h [r] []"

definition notifyDependents :: "store \<Rightarrow> nat \<Rightarrow> store \<times> nat list" where
  "notifyDependents h r = markDirty_pending h (dependents (h ! r)) []"

definition notifyListeners :: "store \<Rightarrow> nat \<Rightarrow> notice list" where
  "notifyListeners h r = map (\<lambda>callback. Notified callback (var_value (h ! r))) (listeners (h ! r))"

text \<open>
  \<open>set\<close>; \<open>now\<close> is the reading of \<open>performance.now()\<close>. It returns the store and
  what happened, in order: the listener calls, then the variables marked dirty.
\<close>

definition fv_set :: "store \<Rightarrow> nat \<Rightarrow> jsprim \<Rightarrow> real \<Rightarrow> store \<times> notice list" where
  "fv_set h r newValue now =
     (if \<not> strict_eq (var_value (h ! r)) newValue then
        (let h1 = h[r := (h ! r)\<lparr>var_value := newValue, lastComputed := now, dirty := False\<rparr>];
             notices = notifyListeners h1 r;
             (h2, marked) = notifyDependents h1 r
         in (h2, notices @ map MarkedDirty marked))
      else (h, []))"

text \<open>\<open>compute\<close>: the function's result is set; if it throws, nothing changes.\<close>

definition compute :: "store \<Rightarrow> nat \<Rightarrow> error + jsprim \<Rightarrow> real \<Rightarrow> store \<times> notice list" where
  "compute h r outcome now =
     (case outcome of Inr result \<Rightarrow> fv_set h r result now | Inl err \<Rightarrow> (h, []))"

text \<open>The constructor: a new variable is dirty and undefined until an initial value is set.\<close>

definition new_flow_variable :: "store \<Rightarrow> string \<Rightarrow> jsprim \<Rightarrow> real \<Rightarrow> store \<times> nat" where
  "new_flow_variable h name initialValue now =
     (let r = length h;
          h1 = h @ [\<lparr>var_name = name, var_value = PUndefined, var_dependencies = [],
                     dependents = [], lastComputed = 0, dirty = True, listeners = []\<rparr>]
      in if initialValue \<noteq> PUndefined then (fst (fv_set h1 r initialValue now), r) else (h1, r))"

section \<open>FlowEngine\<close>

text \<open>
  The engine's registry of variables by name, the store they live in, and its
  execution engine. (Its context snapshot, cache and DOM bridge take no part in what
  follows.)
\<close>

record flow_engine =
  store :: store
  variables :: "(string \<times> nat) list"
  executionEngine :: execution_engine

definition variable :: "flow_engine \<Rightarrow> string \<Rightarrow> jsprim \<Rightarrow> real \<Rightarrow> flow_engine \<times> nat" where
  "variable e name initialValue now =
     (case map_of (variables e) name of
        Some r \<Rightarrow> (e, r)
      | None \<Rightarrow>
          (let (h, r) = new_flow_variable (store e) name initialValue now
           in (e\<lparr>store := h, variables := map_set (variables e) name r\<rparr>, r)))"

definition int_toString :: "int \<Rightarrow> string" where
  "int_toString i = (if i < 0 then CHR ''-'' # digits10 (- i) else digits10 i)"

text \<open>
  \<open>flow\<close>; \<open>now1\<close> and \<open>now2\<close> are its two readings of \<open>Date.now()\<close>, \<open>now\<close> the reading
  of \<open>performance.now()\<close> a new variable would take. It returns the result variable.
\<close>

definition flow :: "flow_engine \<Rightarrow> string \<Rightarrow> int \<Rightarrow> int \<Rightarrow> real \<Rightarrow> flow_engine \<times> nat" where
  "flow e expr now1 now2 now =
     (let parsed = parse expr;
          (e1, resultVar) = variable e (''_result_'' @ int_toString now1) PUndefined now
      in (e1\<lparr>executionEngine :=
               schedule (executionEngine e1)
                 \<lparr>task_id = ''flow_'' @ int_toString now2, expression = parsed, priority = 1,
                  chunks = None\<rparr>\<rparr>,
          resultVar))"

text \<open>The engine's frame: \<open>this._executionEngine.executeFrame(frameStart)\<close>.\<close>

definition engine_executeFrame :: "(nat \<Rightarrow> real) \<Rightarrow> nat \<Rightarrow> flow_engine \<Rightarrow> real \<Rightarrow> flow_engine option" where
  "engine_executeFrame clock rounds e frameStart =
     map_option (\<lambda>s. e\<lparr>executionEngine := s\<rparr>)
       (executeFrame clock rounds (executionEngine e) frameStart)"

text \<open>
  The constructor: the execution engine and the built-in variables, each set at the
  reading \<open>now\<close>. \<open>PI\<close> and \<open>E\<close> are the constants of \<open>Math\<close>.
\<close>

definition math_pi :: real where
  "math_pi = pi"

definition math_e :: real where
  "math_e = exp 1"

declare math_pi_def [code del] math_e_def [code del]

definition builtins :: "real \<Rightarrow> real \<Rightarrow> (string \<times> jsprim) list" where
  "builtins innerWidth innerHeight =
     [(''time'', PNum 0), (''frameCount'', PNum 0), (''PI'', PNum math_pi), (''E'', PNum math_e),
      (''GOLDEN_RATIO'', PNum 1.618033988749895), (''viewportWidth'', PNum innerWidth),
      (''viewportHeight'', PNum innerHeight), (''mouseX'', PNum 0), (''mouseY'', PNum 0)]"

definition new_flow_engine :: "real option \<Rightarrow> real \<Rightarrow> real \<Rightarrow> real \<Rightarrow> flow_engine" where
  "new_flow_engine configured innerWidth innerHeight now =
     foldl (\<lambda>e (name, v). fst (variable e name v now))
       \<lparr>store = [], variables = [], executionEngine = new_execution_engine configured\<rparr>
       (builtins innerWidth innerHeight)"


subsection \<open>The graph of dependents\<close>

text \<open>
  An edge leads from a variable to each of its dependents. \<open>mark\<close> sets one dirty
  flag; the variables newly dirty after a run are those clean before and dirty after.
\<close>

definition dependent_edges :: "store \<Rightarrow> (nat \<times> nat) set" where
  "dependent_edges h = {(a, b). a < length h \<and> b < length h \<and> b \<in> set (dependents (h ! a))}"

definition mark :: "store \<Rightarrow> nat \<Rightarrow> store" where
  "mark h r = h[r := (h ! r)\<lparr>dirty := True\<rparr>]"

definition newly_dirty :: "store \<Rightarrow> store \<Rightarrow> nat set" where
  "newly_dirty h h' = {u. u < length h \<and> \<not> dirty (h ! u) \<and> dirty (h' ! u)}"

text \<open>
  The two methods as they call each other, for any store, cyclic or not:
  \<open>markDirty_calls h r h' marked\<close> says that the call \<open>markDirty()\<close> on \<open>r\<close> in store \<open>h\<close>
  returns, leaving \<open>h'\<close>, after setting the flags of \<open>marked\<close> in that order;
  \<open>forEach_markDirty\<close> is the \<open>forEach\<close> of \<open>_notifyDependents\<close> over a list of dependents.
  A derivation is a finished run; a call that never returned would have none.
\<close>

inductive markDirty_calls :: "store \<Rightarrow> nat \<Rightarrow> store \<Rightarrow> nat list \<Rightarrow> bool"
  and forEach_markDirty :: "store \<Rightarrow> nat list \<Rightarrow> store \<Rightarrow> nat list \<Rightarrow> bool"
where
  already_dirty: "\<not> (r < length h \<and> \<not> dirty (h ! r)) \<Longrightarrow> markDirty_calls h r h []"
| sets_flag: "r < length h \<Longrightarrow> \<not> dirty (h ! r) \<Longrightarrow>
     forEach_markDirty (mark h r) (dependents (h ! r)) h' marked \<Longrightarrow>
     markDirty_calls h r h' (r # marked)"
| no_more: "forEach_markDirty h [] h []"
| next_dependent: "markDirty_calls h d h1 marked1 \<Longrightarrow> forEach_markDirty h1 ds h' marked2 \<Longrightarrow>
     forEach_markDirty h (d # ds) h' (marked1 @ marked2)"

text \<open>Stores for the closed examples: two variables depending on each other, and a chain.\<close>

definition two_cycle :: store where
  "two_cycle =
     [\<lparr>var_name = ''a'', var_value = PNum 1, var_dependencies = [''b''], dependents = [1],
       lastComputed = 0, dirty = False, listeners = []\<rparr>,
      \<lparr>var_name = ''b'', var_value = PNum 2, var_dependencies = [''a''], dependents = [0],
       lastComputed = 0, dirty = False, listeners = []\<rparr>]"

definition chain :: store where
  "chain =
     [\<lparr>var_name = ''a'', var_value = PNum 1, var_dependencies = [], dependents = [1],
       lastComputed = 0, dirty = False, listeners = [7, 8]\<rparr>,
      \<lparr>var_name = ''b'', var_value = PNum 2, var_dependencies = [''a''], dependents = [2],
       lastComputed = 0, dirty = False, listeners = []\<rparr>,
      \<lparr>var_name = ''c'', var_value = PNum 3, var_dependencies = [''b''], dependents = [],
       lastComputed = 0, dirty = False, listeners = []\<rparr>]"


section \<open>Facts about the insertion-ordered map\<close>

lemma map_of_map_set: "map_of (map_set m k v) k' = (if k' = k then Some v else map_of m k')"
  by (induction m) auto

lemma map_set_keys:
  "map fst (map_set m k v) = (if k \<in> fst ` set m then map fst m else map fst m @ [k])"
  by (induction m) force+

section \<open>Storing undefined\<close>

lemma cache_get_absent:
  "map_of (cache c) key = None \<Longrightarrow> cache_get c key now = (PUndefined, c)"
  by (simp add: cache_get_def)

lemma cache_has_absent:
  "map_of (cache c) key = None \<Longrightarrow> cache_has c key now = (False, c)"
  by (simp add: cache_has_def)

lemma stored_undefined_entry:
  "map_of (cache (cache_set c key PUndefined None t0)) key
     = Some \<lparr>entry_value = PUndefined, createdAt = t0, expiresAt = None\<rparr>"
  "map_of (accessCount (cache_set c key PUndefined None t0)) key = Some 1"
  by (simp_all add: cache_set_def Let_def map_of_map_set)

lemma map_of_Some_length: "map_of m k = Some v \<Longrightarrow> 1 \<le> length m"
  by (cases m) auto

text \<open>
  C10, as the code has it. After \<open>set(key, undefined)\<close> without a TTL, whatever the
  cache held before and whenever it is read, \<open>get(key)\<close> returns undefined and
  \<open>has(key)\<close> returns false: the answers both give, in any cache, for a key that is not
  stored (and then they leave the cache as it was). The entry is stored all the same,
  and the public interface shows it: \<open>getStats\<close> counts it in \<open>size\<close>, and the \<open>has\<close> that
  answered false was counted as the second access to it.
\<close>

theorem undefined_entry_reads_as_absent:
  "fst (cache_get (cache_set c key PUndefined None t0) key t1) = PUndefined
   \<and> fst (cache_has (cache_set c key PUndefined None t0) key t1) = False
   \<and> (map_of (cache c') key = None \<longrightarrow>
         cache_get c' key t1 = (PUndefined, c') \<and> cache_has c' key t1 = (False, c'))
   \<and> map_of (cache (cache_set c key PUndefined None t0)) key \<noteq> None
   \<and> 1 \<le> stats_size (getStats (cache_set c key PUndefined None t0))
   \<and> map_of (accessCount (snd (cache_has (cache_set c key PUndefined None t0) key t1))) key
       = Some 2"
proof -
  let ?c1 = "cache_set c key PUndefined None t0"
  note st = stored_undefined_entry[of c key t0]
  have get: "cache_get ?c1 key t1
      = (PUndefined, ?c1\<lparr>accessCount := map_set (accessCount ?c1) key 2\<rparr>)"
    by (simp add: cache_get_def st expired_def numeral_2_eq_2)
  then have has: "cache_has ?c1 key t1
      = (False, ?c1\<lparr>accessCount := map_set (accessCount ?c1) key 2\<rparr>)"
    by (simp add: cache_has_def st(1))
  have size: "1 \<le> stats_size (getStats ?c1)"
    using map_of_Some_length[OF st(1)] by (simp add: getStats_def)
  show ?thesis
    using get has size st(1) cache_get_absent[of c' key t1] cache_has_absent[of c' key t1]
    by (simp add: map_of_map_set)
qed

text \<open>An empty cache of capacity 2 and the key k: not stored, then stored with undefined.\<close>

theorem undefined_entry_reads_as_absent_witness:
  "cache_get (new_cache 2) ''k'' 5 = (PUndefined, new_cache 2)
   \<and> cache_has (new_cache 2) ''k'' 5 = (False, new_cache 2)
   \<and> fst (cache_get (cache_set (new_cache 2) ''k'' PUndefined None 0) ''k'' 5) = PUndefined
   \<and> fst (cache_has (cache_set (new_cache 2) ''k'' PUndefined None 0) ''k'' 5) = False"
  using undefined_entry_reads_as_absent [of "new_cache 2" "''k''" 0 5 "new_cache 2"]
  by (simp add: new_cache_def)

text \<open>
  The claim as it stands fails: \<open>get\<close> answers the same for the key k in an empty cache
  and in the cache where k was set to undefined, but \<open>getStats().size\<close> is 0 in the one
  and 1 in the other, so the stored entry can be told from an absent one.
\<close>

theorem undefined_entry_is_counted:
  "fst (cache_get (cache_set (new_cache 2) ''k'' PUndefined None 0) ''k'' 5)
     = fst (cache_get (new_cache 2) ''k'' 5)
   \<and> stats_size (getStats (new_cache 2)) = 0
   \<and> stats_size (getStats (cache_set (new_cache 2) ''k'' PUndefined None 0)) = 1"
  by (simp add: new_cache_def cache_set_def cache_get_def getStats_def expired_def Let_def)

text \<open>
  It also takes a place: in a full cache of capacity 1, storing undefined under k
  evicts the key that was there.
\<close>

lemma undefined_entry_evicts:
  "map_of (cache (cache_set (cache_set (new_cache 1) ''a'' (PNum 1) None 0) ''k'' PUndefined None 0))
     ''a'' = None"
  by (simp add: new_cache_def cache_set_def evictLRU_def cache_delete_def Let_def)

section \<open>Eviction\<close>

lemma run_states_nonempty [simp]: "run_states now c ops \<noteq> []"
  by (cases ops) auto

lemma run_ops_Nil [simp]: "run_ops now c [] = c"
  by (simp add: run_ops_def)

lemma run_ops_Cons [simp]: "run_ops now c (op # ops) = run_ops now (apply_op now c op) ops"
  by (simp add: run_ops_def)





















text \<open>
  \<open>if (lruKey)\<close> takes the empty string for "no key found": when the least accessed
  key is the empty string nothing is evicted and the cache grows past its capacity.
\<close>

lemma empty_key_never_evicted:
  "length (cache (run_ops 0 (new_cache 2)
      (OpSet ''a'' (PNum 1) # inserts ''a'' [(1, '''', PNum 2), (0, ''c'', PNum 3)]))) = 3"
  by code_simp


section \<open>Cache keys are independent of enumeration order\<close>

lemma collation_onD:
  assumes "collation_on cmp ks" and "a \<in> set ks" and "b \<in> set ks"
  shows "cmp a b \<le> 0 \<or> cmp b a \<le> 0"
    and "cmp a b \<le> 0 \<Longrightarrow> cmp b a \<le> 0 \<Longrightarrow> a = b"
    and "c \<in> set ks \<Longrightarrow> cmp a b \<le> 0 \<Longrightarrow> cmp b c \<le> 0 \<Longrightarrow> cmp a c \<le> 0"
  using assms unfolding collation_on_def list_all_iff by blast+

lemma set_insert_entry: "set (insert_entry cmp x ys) = insert x (set ys)"
  by (induction ys) auto

lemma set_sort_entries: "set (sort_entries cmp xs) = set xs"
  by (induction xs) (auto simp: set_insert_entry)

lemma distinct_insert_entry:
  "distinct (map fst (insert_entry cmp x ys)) = (fst x \<notin> fst ` set ys \<and> distinct (map fst ys))"
  by (induction ys) (auto simp: set_insert_entry)

lemma distinct_sort_entries: "distinct (map fst (sort_entries cmp xs)) = distinct (map fst xs)"
  by (induction xs) (auto simp: distinct_insert_entry set_sort_entries)

lemma sorted_insert_entry:
  assumes "collation_on cmp ks" and "fst x \<in> set ks" and "fst ` set ys \<subseteq> set ks"
    and "sorted_wrt (key_le cmp) ys"
  shows "sorted_wrt (key_le cmp) (insert_entry cmp x ys)"
  using assms(3,4)
proof (induction ys)
  case Nil
  then show ?case by simp
next
  case (Cons y ys)
  show ?case
  proof (cases "cmp (fst x) (fst y) \<le> 0")
    case True
    have "key_le cmp x z" if "z \<in> set ys" for z
    proof -
      from that Cons.prems have "key_le cmp y z" "fst z \<in> set ks" "fst y \<in> set ks" by auto
      with collation_onD(3)[OF assms(1,2), of "fst y" "fst z"] True
      show ?thesis by (simp add: key_le_def)
    qed
    with True Cons.prems show ?thesis by (auto simp: key_le_def)
  next
    case False
    from Cons.prems have "fst y \<in> set ks" by simp
    from collation_onD(1)[OF assms(1,2) this] False have "key_le cmp y x"
      by (simp add: key_le_def)
    with False Cons show ?thesis by (auto simp: set_insert_entry)
  qed
qed

lemma sorted_sort_entries:
  assumes "collation_on cmp ks" and "fst ` set xs \<subseteq> set ks"
  shows "sorted_wrt (key_le cmp) (sort_entries cmp xs)"
  using assms(2)
proof (induction xs)
  case Nil
  then show ?case by simp
next
  case (Cons x xs)
  then show ?case
    using sorted_insert_entry[OF assms(1), of x "sort_entries cmp xs"]
    by (simp add: set_sort_entries)
qed

lemma sorted_entries_unique:
  assumes "collation_on cmp ks"
  shows "sorted_wrt (key_le cmp) xs \<Longrightarrow> sorted_wrt (key_le cmp) ys \<Longrightarrow>
         distinct (map fst xs) \<Longrightarrow> distinct (map fst ys) \<Longrightarrow> set xs = set ys \<Longrightarrow>
         fst ` set xs \<subseteq> set ks \<Longrightarrow> xs = ys"
proof (induction xs arbitrary: ys)
  case Nil
  then show ?case by simp
next
  case (Cons x xs)
  from Cons.prems(5) obtain y ys' where ys: "ys = y # ys'" by (cases ys) auto
  have inj: "inj_on fst (set (x # xs))"
    using Cons.prems(3) by (simp only: distinct_map)
  have xy: "x = y"
  proof (rule ccontr)
    assume ne: "x \<noteq> y"
    with Cons.prems(5) ys have "x \<in> set ys'" "y \<in> set xs" by auto
    with Cons.prems(1,2) ys have "key_le cmp x y" "key_le cmp y x" by auto
    moreover from Cons.prems(6) \<open>y \<in> set xs\<close> have "fst x \<in> set ks" "fst y \<in> set ks" by auto
    ultimately have "fst x = fst y"
      using collation_onD(2)[OF assms] by (simp add: key_le_def)
    with inj \<open>y \<in> set xs\<close> have "x = y" by (auto dest: inj_onD)
    with ne show False by simp
  qed
  from Cons.prems(3,4,5) ys xy have "set xs = set ys'"
    by (auto simp: image_iff)
  with Cons.IH[of ys'] Cons.prems ys xy show ?case by simp
qed

lemma sort_entries_permutation:
  assumes "collation_on cmp ks" and "fst ` set xs \<subseteq> set ks"
    and "distinct (map fst xs)" and "distinct (map fst ys)" and "set xs = set ys"
  shows "sort_entries cmp xs = sort_entries cmp ys"
proof (rule sorted_entries_unique[OF assms(1)])
  show "sorted_wrt (key_le cmp) (sort_entries cmp xs)"
    by (rule sorted_sort_entries[OF assms(1,2)])
  show "sorted_wrt (key_le cmp) (sort_entries cmp ys)"
    using assms(2,5) by (intro sorted_sort_entries[OF assms(1)]) simp
qed (use assms in \<open>simp_all add: distinct_sort_entries set_sort_entries\<close>)

text \<open>
  C8, as the code has it. Two entry lists with the same key-value pairs (keys distinct,
  as in an object), in whatever order they are enumerated, give the same key, whenever
  the host's collation orders the keys present. (Nothing is promised about mappings
  that differ in a value: see the collision below.)
\<close>

theorem generateKey_order_independent:
  assumes "distinct (map fst deps)" and "distinct (map fst deps')" and "set deps = set deps'"
    and "collation_on cmp (map fst deps)"
  shows "generateKey cmp expr deps = generateKey cmp expr deps'"
  using sort_entries_permutation[OF assms(4) _ assms(1,2,3)]
  by (simp add: generateKey_def)

text \<open>Two enumeration orders of \<open>{a: "x", b: 2}\<close>.\<close>

theorem generateKey_order_independent_witness:
  "generateKey code_unit_compare ''a + b'' [(''b'', DNumber ''2''), (''a'', DString ''x'')]
   = generateKey code_unit_compare ''a + b'' [(''a'', DString ''x''), (''b'', DNumber ''2'')]"
  using generateKey_order_independent [of "[(''b'', DNumber ''2''), (''a'', DString ''x'')]"
      "[(''a'', DString ''x''), (''b'', DNumber ''2'')]" code_unit_compare "''a + b''"]
  by (simp add: collation_on_def insert_commute)

text \<open>
  The mappings \<open>{a: "Aa"}\<close> and \<open>{a: "BB"}\<close> differ in their one value and get the
  same key: both strings hash to \<open>840\<close>.
\<close>

theorem generateKey_collision:
  "[(''a'', DString ''Aa'')] \<noteq> [(''a'', DString ''BB'')]
   \<and> generateKey code_unit_compare ''x'' [(''a'', DString ''Aa'')]
     = generateKey code_unit_compare ''x'' [(''a'', DString ''BB'')]"
  by code_simp


section \<open>The main operator\<close>

lemma closing_depth_Suc:
  "i < length tokens \<Longrightarrow>
   closing_depth tokens i = closing_depth tokens (Suc i)
     + (if tokens ! i = '')'' then 1 else 0) - (if tokens ! i = ''('' then 1 else 0)"
  by (simp add: closing_depth_def Cons_nth_drop_Suc[symmetric])

lemma findMainOperator_loop_depth:
  "n \<le> length tokens \<Longrightarrow> parenDepth = closing_depth tokens n \<Longrightarrow>
   operatorIndex = - 1 \<or> (0 \<le> operatorIndex \<and> closing_depth tokens (nat operatorIndex) = 0
        \<and> operators (tokens ! nat operatorIndex) \<noteq> None \<and> nat operatorIndex < length tokens) \<Longrightarrow>
   (let r = findMainOperator_loop tokens n minPrecedence operatorIndex parenDepth
    in r = - 1 \<or> (0 \<le> r \<and> closing_depth tokens (nat r) = 0
        \<and> operators (tokens ! nat r) \<noteq> None \<and> nat r < length tokens))"
proof (induction tokens n minPrecedence operatorIndex parenDepth
    rule: findMainOperator_loop.induct)
  case (1 tokens minPrecedence operatorIndex parenDepth)
  then show ?case by simp
next
  case (2 tokens i minPrecedence operatorIndex parenDepth)
  from "2.prems" have i: "i < length tokens" "i \<le> length tokens" by simp_all
  note cd = closing_depth_Suc[OF i(1)]
  show ?case
  proof (cases "tokens ! i = '')''")
    case True
    with "2.IH"(1)[OF refl True i(2)] "2.prems" cd show ?thesis by (simp add: Let_def)
  next
    case notclose: False
    show ?thesis
    proof (cases "tokens ! i = ''(''")
      case True
      with "2.IH"(2)[OF refl notclose True i(2)] "2.prems" cd notclose show ?thesis
        by (simp add: Let_def)
    next
      case notopen: False
      from cd notclose notopen "2.prems"
      have d: "parenDepth = closing_depth tokens i" by simp
      show ?thesis
      proof (cases "parenDepth = 0 \<and> operators (tokens ! i) \<noteq> None")
        case True
        show ?thesis
        proof (cases "case minPrecedence of None \<Rightarrow> True
                      | Some m \<Rightarrow> fst (the (operators (tokens ! i))) \<le> m")
          case le: True
          have "int i = - 1 \<or> (0 \<le> int i \<and> closing_depth tokens (nat (int i)) = 0
              \<and> operators (tokens ! nat (int i)) \<noteq> None \<and> nat (int i) < length tokens)"
            using True d i by simp
          from "2.IH"(3)[OF refl notclose notopen True refl le i(2) d this]
          show ?thesis using notclose notopen True le by (simp add: Let_def)
        next
          case gt: False
          from "2.IH"(4)[OF refl notclose notopen True refl gt i(2) d "2.prems"(3)]
          show ?thesis using notclose notopen True gt by (simp add: Let_def)
        qed
      next
        case False
        from "2.IH"(5)[OF refl notclose notopen False i(2) d "2.prems"(3)]
        show ?thesis using notclose notopen False by (auto simp add: Let_def)
      qed
    qed
  qed
qed

lemma balanced_from_counts:
  "balanced_from d ts \<Longrightarrow> int d + int (count_list ts ''('') = int (count_list ts '')'')"
  by (induction d ts rule: balanced_from.induct) (auto split: if_splits)

lemma nesting_closing_depth:
  assumes "balanced tokens"
  shows "nesting tokens n = closing_depth tokens n"
proof -
  have "count_list tokens x = count_list (take n tokens) x + count_list (drop n tokens) x" for x
    by (metis append_take_drop_id count_list_append)
  from this[of "''(''"] this[of "'')''"] balanced_from_counts[of 0 tokens] assms
  show ?thesis by (simp add: nesting_def closing_depth_def balanced_def)
qed

text \<open>
  The second half of C6 holds: in a balanced token sequence the index
  \<open>_findMainOperator\<close> returns, when it returns one, is an operator at nesting depth 0.
\<close>

lemma split_point_outside_parentheses:
  assumes "balanced tokens" and "0 \<le> findMainOperator tokens"
  shows "nesting tokens (nat (findMainOperator tokens)) = 0
         \<and> operators (tokens ! nat (findMainOperator tokens)) \<noteq> None
         \<and> nat (findMainOperator tokens) < length tokens"
proof -
  have "closing_depth tokens (length tokens) = 0"
    by (simp add: closing_depth_def)
  from findMainOperator_loop_depth[of "length tokens" tokens 0 "- 1" None] this assms(2)
  show ?thesis
    by (simp add: findMainOperator_def Let_def nesting_closing_depth[OF assms(1)])
qed

text \<open>
  C6, first half, at \<open>2 - 3 - 4\<close>: the scan from the right replaces the split point
  by every operator of equal precedence further left, so the leftmost \<open>-\<close> is the main
  operator and the chain groups as \<open>2 - (3 - 4)\<close>, against the table's \<open>left\<close>.
\<close>

theorem chain_groups_to_the_right:
  "parseTokens (tokenize ''2 - 3 - 4'') = Operation ''-'' (Num 2) (Operation ''-'' (Num 3) (Num 4))"
  by code_simp

section \<open>Evaluating a parsed assignment\<close>

lemma parse_assignment_example:
  "parse ''x = 2 + 3 * 4'' =
     FlowExpression TVariable
       (PAssignment ''x''
          (FlowExpression TOperation
             (PAst (Operation ''+'' (Num 2) (Operation ''*'' (Num 3) (Num 4)))) [] 9))
       [] 10"
  by code_simp

lemma number_toString_2: "number_toString 2 = Some ''2''"
  by (simp add: number_toString_def digits10.simps dec_digit_def)

text \<open>
  C3 at its own input. The parser yields the assignment node with the tree of
  \<open>2 + 3 * 4\<close>, but \<open>_evaluateOperation\<close> adds the number 2 and the node of \<open>3 * 4\<close> as
  they are: the result is the string \<open>2[object Object]\<close>, not 14.
\<close>

theorem assignment_value_not_fourteen:
  "(case expr_value (parse ''x = 2 + 3 * 4'') of
      PAssignment target valueExpr \<Rightarrow>
        evaluateExpression valueExpr = Inr (VStr ''2[object Object]'')
    | _ \<Rightarrow> False)"
  by (simp add: parse_assignment_example number_toString_2)


section \<open>Scheduling by priority\<close>



lemma priority_with_chunks [simp]: "priority (with_chunks task) = priority task"
  by (simp add: with_chunks_def)


lemma schedule_fields [simp]:
  "maxFrameTime (schedule s task) = maxFrameTime s"
  "frameStartTime (schedule s task) = frameStartTime s"
  "events (schedule s task) = events s"
  "clock_reads (schedule s task) = clock_reads s"
  by (simp_all add: schedule_def Let_def split: option.splits)








lemma popped_append [simp]: "popped (es @ es') = popped es @ popped es'"
  by (induction es rule: popped.induct) auto

lemma same_frame_refl [simp]: "same_frame s s"
  by (simp add: same_frame_def)












lemma with_chunks_idem [simp]: "with_chunks (with_chunks task) = with_chunks task"
  by (simp add: with_chunks_def chunkComputation_def)

lemma scheduled_with_chunks [simp]: "scheduled (with_chunks task)"
  by (simp add: scheduled_def)










subsection \<open>A task whose chunks are partly run\<close>

lemma complex_task_complexity: "complexity (expression complex_task) = 101"
  by code_simp

text \<open>
  C2 at a task of 10 chunks and a frame that has time for two of them. The two chunks
  run, \<open>_executeChunkedTask\<close> cuts the task to its last eight chunks and hands it to
  \<open>schedule\<close>, and \<open>schedule\<close>, finding the complexity above 100, chunks it anew: the
  task is back in the queue with all ten chunks.
\<close>

theorem partly_run_task_requeued_whole:
  "(case executeFrame short_frame 1 (schedule (new_execution_engine None) complex_task) 0 of
      None \<Rightarrow> False
    | Some s' \<Rightarrow>
        [e \<leftarrow> events s'. e \<noteq> Popped (with_chunks complex_task)] = [RanChunk ''t_chunk_0'', RanChunk ''t_chunk_1'']
        \<and> map (\<lambda>t. map chunk_id (the (chunks t))) (taskQueue s')
            = [[''t_chunk_0'', ''t_chunk_1'', ''t_chunk_2'', ''t_chunk_3'', ''t_chunk_4'',
                ''t_chunk_5'', ''t_chunk_6'', ''t_chunk_7'', ''t_chunk_8'', ''t_chunk_9'']])"
  by code_simp

text \<open>So it is for every task the engine chunks: whatever is left of it, \<open>schedule\<close> puts the whole list back.\<close>

lemma schedule_regenerates_chunks:
  "100 < complexity (expression task) \<Longrightarrow>
   with_chunks (task\<lparr>chunks := Some remaining\<rparr>) = task\<lparr>chunks := Some (chunkComputation task)\<rparr>"
  by (simp add: with_chunks_def chunkComputation_def)

section \<open>The result of a flow\<close>

text \<open>
  C1 at \<open>flow("2 + 3")\<close> on a new engine, both readings of \<open>Date.now()\<close> being 1000.
  The variable \<open>_result_1000\<close> is returned, undefined, and the task \<open>flow_1000\<close> is
  queued. One frame runs the task to completion and logs its result, 5. The variable
  is still undefined: the task holds no reference to it and \<open>_notifyCompletion\<close> only
  logs.
\<close>

theorem flow_result_never_set:
  "(let (e, resultVar) = flow (new_flow_engine None 1024 768 0) ''2 + 3'' 1000 1000 0 in
      var_name (store e ! resultVar) = ''_result_1000''
      \<and> map task_id (taskQueue (executionEngine e)) = [''flow_1000'']
      \<and> var_value (store e ! resultVar) = PUndefined
      \<and> (case engine_executeFrame (\<lambda>n. 0) 1 e 0 of
            None \<Rightarrow> False
          | Some e' \<Rightarrow>
              taskQueue (executionEngine e') = []
              \<and> last (events (executionEngine e')) = TaskCompleted ''flow_1000'' (VNum 5)
              \<and> var_value (store e' ! resultVar) = PUndefined))"
  by code_simp

text \<open>No frame changes any variable.\<close>

lemma frames_leave_the_store:
  "engine_executeFrame clock rounds e frameStart = Some e' \<Longrightarrow>
   store e' = store e \<and> variables e' = variables e"
  by (auto simp: engine_executeFrame_def)


section \<open>Marking dependents dirty\<close>

lemma mark_nth:
  "mark h r ! u = (if u = r \<and> r < length h then (h ! r)\<lparr>dirty := True\<rparr> else h ! u)"
  by (cases "r < length h") (simp_all add: mark_def nth_list_update list_update_beyond)

lemma mark_simps [simp]:
  "length (mark h r) = length h"
  "dependents (mark h r ! u) = dependents (h ! u)"
  "listeners (mark h r ! u) = listeners (h ! u)"
  "var_value (mark h r ! u) = var_value (h ! u)"
  "r < length h \<Longrightarrow> dirty (mark h r ! u) = (u = r \<or> dirty (h ! u))"
  by (simp_all add: mark_nth) (simp add: mark_def)

lemma dependent_edges_mark [simp]: "dependent_edges (mark h r) = dependent_edges h"
  by (simp add: dependent_edges_def)

lemma markDirty_pending_Cons:
  "markDirty_pending h (r # pending) marked =
     (if r < length h \<and> \<not> dirty (h ! r)
      then markDirty_pending (mark h r) (dependents (h ! r) @ pending) (marked @ [r])
      else markDirty_pending h pending marked)"
  by (simp add: mark_def)

declare markDirty_pending.simps(2) [simp del]

lemmas markDirty_pending_induct = markDirty_pending.induct[unfolded mark_def[symmetric]]

lemma markDirty_pending_frame:
  "markDirty_pending h pending marked = (h', marked') \<Longrightarrow>
   length h' = length h \<and> (\<forall>u. dependents (h' ! u) = dependents (h ! u)
      \<and> listeners (h' ! u) = listeners (h ! u) \<and> var_value (h' ! u) = var_value (h ! u))
   \<and> (\<forall>u < length h. dirty (h ! u) \<longrightarrow> dirty (h' ! u))"
proof (induction h pending marked rule: markDirty_pending_induct)
  case (1 h marked)
  then show ?case by simp
next
  case (2 h r pending marked)
  show ?case
  proof (cases "r < length h \<and> \<not> dirty (h ! r)")
    case True
    with "2.prems" have "markDirty_pending (mark h r) (dependents (h ! r) @ pending) (marked @ [r]) = (h', marked')"
      by (simp add: markDirty_pending_Cons)
    from "2.IH"(1)[OF True this] True show ?thesis by simp
  next
    case False
    with "2.prems" have "markDirty_pending h pending marked = (h', marked')"
      by (simp add: markDirty_pending_Cons)
    from "2.IH"(2)[OF False this] show ?thesis .
  qed
qed


lemma markDirty_pending_cases:
  assumes "markDirty_pending h (r # pending) marked = (h', marked')"
  obtains (marks) "r < length h" "\<not> dirty (h ! r)"
      "markDirty_pending (mark h r) (dependents (h ! r) @ pending) (marked @ [r]) = (h', marked')"
    | (skips) "\<not> (r < length h \<and> \<not> dirty (h ! r))"
      "markDirty_pending h pending marked = (h', marked')"
  using assms by (cases "r < length h \<and> \<not> dirty (h ! r)") (simp_all add: markDirty_pending_Cons)

lemma markDirty_pending_reaches_pending:
  "markDirty_pending h pending marked = (h', marked') \<Longrightarrow>
   \<forall>p\<in>set pending. p < length h \<longrightarrow> dirty (h' ! p)"
proof (induction h pending marked rule: markDirty_pending_induct)
  case (1 h marked)
  then show ?case by simp
next
  case (2 h r pending marked)
  from "2.prems" show ?case
  proof (cases rule: markDirty_pending_cases)
    case marks
    from "2.IH"(1)[OF _ marks(3)] marks(1,2)
    have ih: "\<forall>p\<in>set (dependents (h ! r) @ pending). p < length h \<longrightarrow> dirty (h' ! p)" by simp
    from markDirty_pending_frame[OF marks(3)] marks(1) have "dirty (h' ! r)" by simp
    with ih show ?thesis by simp
  next
    case skips
    from "2.IH"(2)[OF skips] have ih: "\<forall>p\<in>set pending. p < length h \<longrightarrow> dirty (h' ! p)" .
    from markDirty_pending_frame[OF skips(2)] skips(1) have "r < length h \<longrightarrow> dirty (h' ! r)" by auto
    with ih show ?thesis by simp
  qed
qed

lemma markDirty_pending_marked:
  "markDirty_pending h pending marked = (h', marked') \<Longrightarrow>
   \<exists>new. marked' = marked @ new \<and> distinct new \<and> set new = newly_dirty h h'"
proof (induction h pending marked rule: markDirty_pending_induct)
  case (1 h marked)
  then show ?case by (auto simp: newly_dirty_def)
next
  case (2 h r pending marked)
  from "2.prems" show ?case
  proof (cases rule: markDirty_pending_cases)
    case marks
    from "2.IH"(1)[OF _ marks(3)] marks(1,2)
    obtain new where new: "marked' = (marked @ [r]) @ new" "distinct new"
      "set new = newly_dirty (mark h r) h'"
      by auto
    from markDirty_pending_frame[OF marks(3)] marks(1) have r: "dirty (h' ! r)" by simp
    have "newly_dirty h h' = insert r (newly_dirty (mark h r) h')"
      using marks(1,2) r by (auto simp: newly_dirty_def)
    moreover have "r \<notin> newly_dirty (mark h r) h'"
      using marks(1) by (simp add: newly_dirty_def)
    ultimately have "marked' = marked @ (r # new) \<and> distinct (r # new) \<and> set (r # new) = newly_dirty h h'"
      using new by simp
    then show ?thesis by blast
  next
    case skips
    from "2.IH"(2)[OF skips] show ?thesis .
  qed
qed

lemma markDirty_pending_closed:
  "markDirty_pending h pending marked = (h', marked') \<Longrightarrow>
   \<forall>u\<in>newly_dirty h h'. \<forall>d\<in>set (dependents (h ! u)). d < length h \<longrightarrow> dirty (h' ! d)"
proof (induction h pending marked rule: markDirty_pending_induct)
  case (1 h marked)
  then show ?case by (simp add: newly_dirty_def)
next
  case (2 h r pending marked)
  from "2.prems" show ?case
  proof (cases rule: markDirty_pending_cases)
    case marks
    from "2.IH"(1)[OF _ marks(3)] marks(1,2)
    have ih: "\<forall>u\<in>newly_dirty (mark h r) h'. \<forall>d\<in>set (dependents (h ! u)). d < length h \<longrightarrow> dirty (h' ! d)"
      by simp
    from markDirty_pending_reaches_pending[OF marks(3)]
    have deps: "\<forall>d\<in>set (dependents (h ! r)). d < length h \<longrightarrow> dirty (h' ! d)" by simp
    have "newly_dirty h h' \<subseteq> insert r (newly_dirty (mark h r) h')"
      using marks(1) by (auto simp: newly_dirty_def)
    with ih deps show ?thesis by blast
  next
    case skips
    from "2.IH"(2)[OF skips] show ?thesis .
  qed
qed

lemma dependent_edges_source:
  "(p, u) \<in> (dependent_edges h)\<^sup>* \<Longrightarrow> p = u \<or> p < length h"
  by (erule converse_rtranclE) (auto simp: dependent_edges_def)

lemma markDirty_pending_sound:
  "markDirty_pending h pending marked = (h', marked') \<Longrightarrow>
   \<forall>u\<in>newly_dirty h h'. \<exists>p\<in>set pending. (p, u) \<in> (dependent_edges h)\<^sup>*"
proof (induction h pending marked rule: markDirty_pending_induct)
  case (1 h marked)
  then show ?case by (simp add: newly_dirty_def)
next
  case (2 h r pending marked)
  from "2.prems" show ?case
  proof (cases rule: markDirty_pending_cases)
    case marks
    from "2.IH"(1)[OF _ marks(3)] marks(1,2)
    have ih: "\<forall>u\<in>newly_dirty (mark h r) h'.
        \<exists>p\<in>set (dependents (h ! r) @ pending). (p, u) \<in> (dependent_edges h)\<^sup>*"
      by simp
    show ?thesis
    proof
      fix u assume u: "u \<in> newly_dirty h h'"
      show "\<exists>p\<in>set (r # pending). (p, u) \<in> (dependent_edges h)\<^sup>*"
      proof (cases "u = r")
        case True
        then show ?thesis by auto
      next
        case False
        with u marks(1) have "u \<in> newly_dirty (mark h r) h'" by (simp add: newly_dirty_def)
        with ih obtain p where p: "p \<in> set (dependents (h ! r) @ pending)"
          "(p, u) \<in> (dependent_edges h)\<^sup>*" by blast
        show ?thesis
        proof (cases "p \<in> set pending")
          case True
          with p(2) show ?thesis by auto
        next
          case False
          with p(1) have d: "p \<in> set (dependents (h ! r))" by simp
          from u have "u < length h" by (simp add: newly_dirty_def)
          with dependent_edges_source[OF p(2)] have "p < length h" by auto
          with d marks(1) have "(r, p) \<in> dependent_edges h" by (simp add: dependent_edges_def)
          then have "(r, p) \<in> dependent_edges h" .
          from this p(2) have "(r, u) \<in> (dependent_edges h)\<^sup>*" by (rule converse_rtrancl_into_rtrancl)
          then show ?thesis by auto
        qed
      qed
    qed
  next
    case skips
    from "2.IH"(2)[OF skips] show ?thesis by auto
  qed
qed

text \<open>From a store with no dirty variable, the marked variables are those that can be reached.\<close>

lemma markDirty_pending_reachable:
  assumes run: "markDirty_pending h pending [] = (h', marked)"
    and clean: "\<forall>u < length h. \<not> dirty (h ! u)"
  shows "distinct marked
       \<and> set marked = {u. \<exists>p\<in>set pending. p < length h \<and> (p, u) \<in> (dependent_edges h)\<^sup>*}
       \<and> (\<forall>u < length h. dirty (h' ! u) = (u \<in> set marked))"
proof -
  from markDirty_pending_marked[OF run]
  have m: "distinct marked" "set marked = newly_dirty h h'" by auto
  have nd: "newly_dirty h h' = {u. u < length h \<and> dirty (h' ! u)}"
    using clean by (auto simp: newly_dirty_def)
  have sub: "u \<in> {u. \<exists>p\<in>set pending. p < length h \<and> (p, u) \<in> (dependent_edges h)\<^sup>*}"
    if "u \<in> newly_dirty h h'" for u
  proof -
    from markDirty_pending_sound[OF run] that
    obtain p where p: "p \<in> set pending" "(p, u) \<in> (dependent_edges h)\<^sup>*" by blast
    from that have "u < length h" by (simp add: newly_dirty_def)
    with dependent_edges_source[OF p(2)] have "p < length h" by auto
    with p show ?thesis by blast
  qed
  have sup: "u \<in> newly_dirty h h'"
    if p: "p \<in> set pending" "p < length h" and reach: "(p, u) \<in> (dependent_edges h)\<^sup>*" for p u
    using reach
  proof (induction rule: rtrancl_induct)
    case base
    from markDirty_pending_reaches_pending[OF run] p show ?case by (simp add: nd)
  next
    case (step a b)
    from step.hyps(2) have e: "a < length h" "b < length h" "b \<in> set (dependents (h ! a))"
      by (simp_all add: dependent_edges_def)
    from markDirty_pending_closed[OF run] step.IH e show ?case by (auto simp: nd)
  qed
  from sub sup have "newly_dirty h h' = {u. \<exists>p\<in>set pending. p < length h \<and> (p, u) \<in> (dependent_edges h)\<^sup>*}"
    by blast
  with m nd show ?thesis by auto
qed

inductive_cases forEach_NilE: "forEach_markDirty h [] h' marked"
inductive_cases forEach_ConsE: "forEach_markDirty h (d # ds) h' marked"

text \<open>A call has one outcome at most.\<close>

inductive_cases markDirty_callsE: "markDirty_calls h r h' marked"

lemma calls_deterministic:
  "markDirty_calls h r h1 m1 \<Longrightarrow> markDirty_calls h r h2 m2 \<Longrightarrow> h2 = h1 \<and> m2 = m1"
  "forEach_markDirty h ds h1 m1 \<Longrightarrow> forEach_markDirty h ds h2 m2 \<Longrightarrow> h2 = h1 \<and> m2 = m1"
proof (induction arbitrary: h2 m2 and h2 m2 rule: markDirty_calls_forEach_markDirty.inducts)
  case (already_dirty r h)
  from already_dirty.prems already_dirty.hyps show ?case
    by (auto elim: markDirty_callsE)
next
  case (sets_flag r h h' marked)
  from sets_flag.prems sets_flag.hyps(1,2) obtain m where
    "forEach_markDirty (mark h r) (dependents (h ! r)) h2 m" "m2 = r # m"
    by (auto elim: markDirty_callsE)
  with sets_flag.IH show ?case by blast
next
  case (no_more h)
  then show ?case by (auto elim: forEach_NilE)
next
  case (next_dependent h d h1 marked1 ds h' marked2)
  from next_dependent.prems obtain hm a b where
    "markDirty_calls h d hm a" "forEach_markDirty hm ds h2 b" "m2 = a @ b"
    by (auto elim: forEach_ConsE)
  with next_dependent.IH show ?case by blast
qed

lemma forEach_split:
  "forEach_markDirty h (xs @ ys) h' marked \<Longrightarrow>
   \<exists>hm m1 m2. forEach_markDirty h xs hm m1 \<and> forEach_markDirty hm ys h' m2 \<and> marked = m1 @ m2"
proof (induction xs arbitrary: h marked)
  case Nil
  then show ?case using no_more by fastforce
next
  case (Cons x xs)
  from Cons.prems obtain h1 a b where
    x: "markDirty_calls h x h1 a" and rest: "forEach_markDirty h1 (xs @ ys) h' b"
    and m: "marked = a @ b"
    by (auto elim: forEach_ConsE)
  from Cons.IH[OF rest] obtain hm m1 m2 where
    "forEach_markDirty h1 xs hm m1" "forEach_markDirty hm ys h' m2" "b = m1 @ m2"
    by blast
  with next_dependent[OF x] m show ?case by fastforce
qed

lemma markDirty_pending_calls:
  "markDirty_pending h pending marked = (h', marked') \<Longrightarrow>
   \<exists>new. marked' = marked @ new \<and> forEach_markDirty h pending h' new"
proof (induction h pending marked rule: markDirty_pending_induct)
  case (1 h marked)
  then show ?case using no_more by simp
next
  case (2 h r pending marked)
  from "2.prems" show ?case
  proof (cases rule: markDirty_pending_cases)
    case marks
    from "2.IH"(1)[OF _ marks(3)] marks(1,2)
    obtain new where new: "marked' = (marked @ [r]) @ new"
      "forEach_markDirty (mark h r) (dependents (h ! r) @ pending) h' new"
      by auto
    from forEach_split[OF new(2)] obtain hm m1 m2 where
      s: "forEach_markDirty (mark h r) (dependents (h ! r)) hm m1"
      "forEach_markDirty hm pending h' m2" "new = m1 @ m2"
      by blast
    from sets_flag[OF marks(1,2) s(1)] s(2)
    have "forEach_markDirty h (r # pending) h' ((r # m1) @ m2)" by (rule next_dependent)
    with new(1) s(3) show ?thesis by simp
  next
    case skips
    from "2.IH"(2)[OF skips] obtain new where
      new: "marked' = marked @ new" "forEach_markDirty h pending h' new" by blast
    from next_dependent[OF already_dirty[OF skips(1)] new(2)] new(1) show ?thesis by simp
  qed
qed

text \<open>
  C9. In every store, whatever cycles its dependent edges form, the call
  \<open>markDirty()\<close> returns, with the result the worklist computes. Every variable it marks
  was clean and is marked once, and on a dirty variable it does nothing.
\<close>

theorem markDirty_terminates:
  "markDirty_calls h r (fst (markDirty h r)) (snd (markDirty h r))
   \<and> distinct (snd (markDirty h r))
   \<and> (\<forall>u\<in>set (snd (markDirty h r)). u < length h \<and> \<not> dirty (h ! u))
   \<and> (r < length h \<and> dirty (h ! r) \<longrightarrow> markDirty h r = (h, []))"
proof -
  obtain h' marked where run: "markDirty_pending h [r] [] = (h', marked)"
    by (cases "markDirty_pending h [r] []")
  from markDirty_pending_calls[OF run] have "forEach_markDirty h [r] h' marked" by simp
  then have calls: "markDirty_calls h r h' marked"
    by (auto elim!: forEach_ConsE forEach_NilE)
  from markDirty_pending_marked[OF run]
  have m: "distinct marked" "set marked = newly_dirty h h'" by auto
  have "markDirty h r = (h, [])" if "r < length h \<and> dirty (h ! r)"
    using that by (simp add: markDirty_def markDirty_pending_Cons)
  with calls m show ?thesis
    by (auto simp: markDirty_def run newly_dirty_def)
qed

text \<open>
  Two variables depending on each other: marking the first marks both, once each, and
  marking it again does nothing.
\<close>

theorem markDirty_terminates_witness:
  "markDirty_calls two_cycle 0 (map (\<lambda>v. v\<lparr>dirty := True\<rparr>) two_cycle) [0, 1]
   \<and> markDirty (fst (markDirty two_cycle 0)) 0 = (fst (markDirty two_cycle 0), [])"
proof -
  have run: "markDirty two_cycle 0 = (map (\<lambda>v. v\<lparr>dirty := True\<rparr>) two_cycle, [0, 1])"
    by code_simp
  have "0 < length (fst (markDirty two_cycle 0)) \<and> dirty (fst (markDirty two_cycle 0) ! 0)"
    unfolding run by code_simp
  with markDirty_terminates[of two_cycle 0] markDirty_terminates[of "fst (markDirty two_cycle 0)" 0]
  show ?thesis
    unfolding run by simp
qed

section \<open>Setting a variable\<close>

text \<open>The listeners of a variable stay a list without repetition.\<close>

lemma subscribe_distinct:
  assumes "r < length h" and "distinct (listeners (h ! r))"
  shows "distinct (listeners (subscribe h r callback ! r))"
    and "distinct (listeners (unsubscribe h r callback ! r))"
  using assms by (simp_all add: subscribe_def unsubscribe_def set_add_def set_delete_def)

lemma fv_set_same: "strict_eq (var_value (h ! r)) v \<Longrightarrow> fv_set h r v now = (h, [])"
  by (simp add: fv_set_def)

lemma dependent_edges_trancl:
  assumes "r < length h"
  shows "{u. \<exists>p\<in>set (dependents (h ! r)). p < length h \<and> (p, u) \<in> (dependent_edges h)\<^sup>*}
         = {u. (r, u) \<in> (dependent_edges h)\<^sup>+}"
proof (intro set_eqI iffI; clarify)
  fix u p
  assume "p \<in> set (dependents (h ! r))" "p < length h" "(p, u) \<in> (dependent_edges h)\<^sup>*"
  with assms have "(r, p) \<in> dependent_edges h" by (simp add: dependent_edges_def)
  with \<open>(p, u) \<in> (dependent_edges h)\<^sup>*\<close> show "(r, u) \<in> (dependent_edges h)\<^sup>+" by simp
next
  fix u
  assume "(r, u) \<in> (dependent_edges h)\<^sup>+"
  then obtain p where "(r, p) \<in> dependent_edges h" "(p, u) \<in> (dependent_edges h)\<^sup>*"
    by (auto dest: tranclD)
  then show "\<exists>p\<in>set (dependents (h ! r)). p < length h \<and> (p, u) \<in> (dependent_edges h)\<^sup>*"
    by (auto simp: dependent_edges_def)
qed

text \<open>
  C4. In a store with no dirty variable, \<open>set\<close> with a value strictly equal to the
  current one changes nothing and calls nobody. With any other value it calls the
  listeners of the variable, each once, in subscription order, with the new value, and
  then marks dirty, once each, exactly the variables reachable from it along dependent
  edges: its direct and transitive dependents. (In an acyclic graph the variable itself
  is not among them. The listeners are what is in the set at the time of the call;
  what a callback does is not modelled.)
\<close>

theorem set_notifies_then_marks:
  assumes "r < length h" and "\<forall>u < length h. \<not> dirty (h ! u)"
  shows "(strict_eq (var_value (h ! r)) v \<longrightarrow> fv_set h r v now = (h, []))
       \<and> (\<not> strict_eq (var_value (h ! r)) v \<longrightarrow>
            (\<exists>marked.
               snd (fv_set h r v now)
                 = map (\<lambda>callback. Notified callback v) (listeners (h ! r)) @ map MarkedDirty marked
               \<and> distinct marked
               \<and> set marked = {u. (r, u) \<in> (dependent_edges h)\<^sup>+}
               \<and> (\<forall>u < length h. dirty (fst (fv_set h r v now) ! u) = (u \<in> set marked))
               \<and> (acyclic (dependent_edges h) \<longrightarrow> r \<notin> set marked)
               \<and> var_value (fst (fv_set h r v now) ! r) = v))"
proof (intro conjI impI)
  assume "strict_eq (var_value (h ! r)) v"
  then show "fv_set h r v now = (h, [])" by (rule fv_set_same)
next
  assume ne: "\<not> strict_eq (var_value (h ! r)) v"
  let ?h1 = "h[r := (h ! r)\<lparr>var_value := v, lastComputed := now, dirty := False\<rparr>]"
  obtain h2 marked where run: "markDirty_pending ?h1 (dependents (?h1 ! r)) [] = (h2, marked)"
    by (cases "markDirty_pending ?h1 (dependents (?h1 ! r)) []")
  have h1: "length ?h1 = length h" "\<And>u. dependents (?h1 ! u) = dependents (h ! u)"
    "listeners (?h1 ! r) = listeners (h ! r)" "var_value (?h1 ! r) = v"
    "\<forall>u < length ?h1. \<not> dirty (?h1 ! u)"
    using assms by (auto simp: nth_list_update)
  then have edges: "dependent_edges ?h1 = dependent_edges h"
    by (simp add: dependent_edges_def)
  from markDirty_pending_reachable[OF run h1(5)]
  have m: "distinct marked"
    "set marked = {u. \<exists>p\<in>set (dependents (h ! r)). p < length h \<and> (p, u) \<in> (dependent_edges h)\<^sup>*}"
    "\<forall>u < length h. dirty (h2 ! u) = (u \<in> set marked)"
    unfolding edges h1(1,2) by simp_all
  from markDirty_pending_frame[OF run] have "var_value (h2 ! r) = v"
    by (simp add: h1(4))
  moreover have "fv_set h r v now
      = (h2, map (\<lambda>callback. Notified callback v) (listeners (h ! r)) @ map MarkedDirty marked)"
    using ne run by (simp add: fv_set_def notifyDependents_def notifyListeners_def Let_def h1(3,4))
  ultimately show "\<exists>marked.
       snd (fv_set h r v now)
         = map (\<lambda>callback. Notified callback v) (listeners (h ! r)) @ map MarkedDirty marked
       \<and> distinct marked
       \<and> set marked = {u. (r, u) \<in> (dependent_edges h)\<^sup>+}
       \<and> (\<forall>u < length h. dirty (fst (fv_set h r v now) ! u) = (u \<in> set marked))
       \<and> (acyclic (dependent_edges h) \<longrightarrow> r \<notin> set marked)
       \<and> var_value (fst (fv_set h r v now) ! r) = v"
    using m dependent_edges_trancl[OF assms(1)] by (auto simp: acyclic_def)
qed

text \<open>A chain a, b, c with two listeners on a: setting a to its value, and to a new one.\<close>

theorem set_notifies_then_marks_witness:
  "fv_set chain 0 (PNum 1) 10 = (chain, [])
   \<and> snd (fv_set chain 0 (PNum 5) 10)
       = [Notified 7 (PNum 5), Notified 8 (PNum 5), MarkedDirty 1, MarkedDirty 2]
   \<and> {u. (0, u) \<in> (dependent_edges chain)\<^sup>+} = {1, 2}"
proof -
  have h: "0 < length chain" "\<forall>u < length chain. \<not> dirty (chain ! u)"
    by (simp_all add: chain_def less_Suc_eq numeral_3_eq_3 nth_Cons')
  have eq: "strict_eq (var_value (chain ! 0)) (PNum 1)" "\<not> strict_eq (var_value (chain ! 0)) (PNum 5)"
    by (simp_all add: chain_def strict_eq_def)
  have run: "snd (fv_set chain 0 (PNum 5) 10)
       = [Notified 7 (PNum 5), Notified 8 (PNum 5), MarkedDirty 1, MarkedDirty 2]"
    by code_simp
  have l: "listeners (chain ! 0) = [7, 8]" by (simp add: chain_def)
  from set_notifies_then_marks[OF h, of "PNum 1" 10] eq(1)
  have a: "fv_set chain 0 (PNum 1) 10 = (chain, [])" by blast
  from set_notifies_then_marks[OF h, of "PNum 5" 10] eq(2)
  obtain marked where m: "snd (fv_set chain 0 (PNum 5) 10)
       = map (\<lambda>callback. Notified callback (PNum 5)) (listeners (chain ! 0)) @ map MarkedDirty marked"
    "set marked = {u. (0, u) \<in> (dependent_edges chain)\<^sup>+}"
    by blast
  from m(1) have "map MarkedDirty marked = map MarkedDirty [1, 2]"
    unfolding run l by simp
  then have "marked = [1, 2]"
    by (rule map_injective) (simp add: inj_on_def)
  with m(2) have "{u. (0, u) \<in> (dependent_edges chain)\<^sup>+} = {1, 2}" by auto
  with a run show ?thesis by simp
qed


end
